(* ===== verification/Prelude.thy ===== *)
theory Prelude
  imports Main "HOL-Library.Word"
begin

text \<open>
  Shared vocabulary of the development: the byte and word types of the journal's
  on-disk structures, the width-\<open>w\<close> unsigned arithmetic of C (\<open>uint32_t\<close> wrap-around
  written out on \<open>nat\<close>), little-endian field encodings, the checked model of
  \<open>memcpy\<close> used by every copy in \<open>txn_rec.cpp\<close>, and the error sum that stands for
  the exceptions (\<open>jexception\<close>), failed assertions and memory faults of the code.
\<close>

unbundle bit_operations_syntax

type_synonym byte = "8 word"
type_synonym u16 = "16 word"
type_synonym u32 = "32 word"
type_synonym u64 = "64 word"

named_theorems uarith \<open>exactness of the unsigned C arithmetic below its width\<close>
named_theorems mem_simps \<open>evaluation of the memory model in bounds\<close>

subsection \<open>Errors\<close>

text \<open>
  \<open>JERR_JREC_*\<close> and \<open>JERR__MALLOC\<close> (thrown by \<open>MALLOC_CHK\<close>) are the \<open>jerrno\<close>
  codes thrown as \<open>jexception\<close>; \<open>Assert_failed\<close> is an
  \<open>assert\<close> of a debug build; the memory faults are reads or writes outside the buffer
  a pointer designates, or through a null pointer (undefined behaviour in C).
\<close>

datatype jerr =
    JERR_JREC_BADRECHDR
  | JERR_JREC_BADRECTAIL
  | JERR_JREC_BADRECID
  | JERR__MALLOC
  | Assert_failed
  | Null_pointer
  | Read_out_of_bounds
  | Write_out_of_bounds

type_synonym 'a res = "jerr + 'a"

definition bindE :: "'e + 'a \<Rightarrow> ('a \<Rightarrow> 'e + 'b) \<Rightarrow> 'e + 'b" where
  "bindE m f = (case m of Inl e \<Rightarrow> Inl e | Inr a \<Rightarrow> f a)"

subsection \<open>Unsigned C arithmetic\<close>

text \<open>
  An unsigned C value of width \<open>w\<close> (\<open>uint32_t\<close>: 32, \<open>size_t\<close>: 64) is a \<open>nat\<close>
  below \<open>2^w\<close>; a product or a narrowing conversion truncates (\<open>trunc w\<close>), a
  difference wraps around (\<open>usub w\<close>). Below the width both are the exact operations,
  which is what the lemmas of \<open>uarith\<close> say.
\<close>

definition trunc :: "nat \<Rightarrow> nat \<Rightarrow> nat" where
  "trunc w n = n mod 2 ^ w"

definition usub :: "nat \<Rightarrow> nat \<Rightarrow> nat \<Rightarrow> nat" where
  "usub w a b = trunc w (a + 2 ^ w - b)"

subsection \<open>Little-endian field encodings\<close>

fun le_enc :: "nat \<Rightarrow> nat \<Rightarrow> byte list" where
  "le_enc 0 v = []"
| "le_enc (Suc n) v = word_of_nat (v mod 256) # le_enc n (v div 256)"

fun le_dec :: "byte list \<Rightarrow> nat" where
  "le_dec [] = 0"
| "le_dec (b # bs) = unat b + 256 * le_dec bs"

definition word_bytes :: "nat \<Rightarrow> 'a::len word \<Rightarrow> byte list" where
  "word_bytes n w = le_enc n (unat w)"

definition bytes_word :: "byte list \<Rightarrow> 'a::len word" where
  "bytes_word bs = word_of_nat (le_dec bs)"

subsection \<open>Memory: buffers as byte lists, \<open>memcpy\<close> with bounds\<close>

text \<open>
  A pointer to a buffer is the buffer's content; an offset into it is a \<open>nat\<close>.
  Reading or writing outside the buffer is a fault, not an unspecified value.
\<close>

definition splice :: "'a list \<Rightarrow> nat \<Rightarrow> 'a list \<Rightarrow> 'a list" where
  "splice xs k ys = take k xs @ ys @ drop (k + length ys) xs"

definition mem_read :: "'a list \<Rightarrow> nat \<Rightarrow> nat \<Rightarrow> 'a list res" where
  "mem_read src off n =
     (if off + n \<le> length src then Inr (take n (drop off src)) else Inl Read_out_of_bounds)"

definition mem_write :: "'a list \<Rightarrow> nat \<Rightarrow> 'a list \<Rightarrow> 'a list res" where
  "mem_write dst off bs =
     (if off + length bs \<le> length dst then Inr (splice dst off bs) else Inl Write_out_of_bounds)"

definition memcpy :: "'a list \<Rightarrow> nat \<Rightarrow> 'a list \<Rightarrow> nat \<Rightarrow> nat \<Rightarrow> 'a list res" where
  "memcpy dst doff src soff n = bindE (mem_read src soff n) (mem_write dst doff)"

subsection \<open>Facts: Errors\<close>

lemma bindE_Inr [simp]: "bindE (Inr a) f = f a"
  by (simp add: bindE_def)

lemma bindE_Inl [simp]: "bindE (Inl e) f = Inl e"
  by (simp add: bindE_def)

lemma bindE_assoc: "bindE (bindE m f) g = bindE m (\<lambda>x. bindE (f x) g)"
  by (cases m) simp_all

lemma bindE_eq_Inr: "bindE m f = Inr b \<longleftrightarrow> (\<exists>a. m = Inr a \<and> f a = Inr b)"
  by (cases m) simp_all

lemma bindE_eq_Inl: "bindE m f = Inl e \<longleftrightarrow> m = Inl e \<or> (\<exists>a. m = Inr a \<and> f a = Inl e)"
  by (cases m) simp_all

subsection \<open>Facts: Unsigned C arithmetic\<close>

lemma trunc_id [uarith]: "n < 2 ^ w \<Longrightarrow> trunc w n = n"
  by (simp add: trunc_def)

lemma trunc_less: "trunc w n < 2 ^ w"
  by (simp add: trunc_def)

lemma usub_exact [uarith]: "b \<le> a \<Longrightarrow> a < 2 ^ w \<Longrightarrow> usub w a b = a - b"
proof -
  assume ba: "b \<le> a" and a: "a < 2 ^ w"
  have e: "a + 2 ^ w - b = (a - b) + 2 ^ w"
    using ba by (simp only: Nat.add_diff_assoc2)
  have l: "a - b < 2 ^ w"
    using a by (rule le_less_trans [OF diff_le_self])
  show ?thesis
    unfolding usub_def trunc_def e mod_add_self2 using l by (rule mod_less)
qed

lemma usub_self [simp]: "usub w a a = 0"
  by (simp add: usub_def trunc_def)

lemma usub_wraps: "a < b \<Longrightarrow> b \<le> 2 ^ w \<Longrightarrow> usub w a b = 2 ^ w + a - b"
proof -
  assume ab: "a < b" and b: "b \<le> 2 ^ w"
  then have "a + 2 ^ w - b < 2 ^ w" by linarith
  then show ?thesis
    by (simp add: usub_def trunc_def add.commute)
qed

lemma usub64_small [uarith]: "b \<le> a \<Longrightarrow> a < 2 ^ 32 \<Longrightarrow> usub 64 a b = a - b"
proof -
  assume "b \<le> a" "a < 2 ^ 32"
  moreover have "(2::nat) ^ 32 < 2 ^ 64" by simp
  ultimately show ?thesis
    by (intro usub_exact) linarith+
qed

subsection \<open>Facts: Little-endian field encodings\<close>

lemma length_le_enc [simp]: "length (le_enc n v) = n"
  by (induction n arbitrary: v) simp_all

lemma le_dec_le_enc: "le_dec (le_enc n v) = v mod 256 ^ n"
proof (induction n arbitrary: v)
  case 0
  then show ?case by simp
next
  case (Suc n)
  have "unat (word_of_nat (v mod 256) :: byte) = v mod 256"
    by (simp add: unat_of_nat)
  with Suc show ?case
    by (simp add: mod_mult2_eq)
qed

lemma le_dec_less: "le_dec bs < 256 ^ length bs"
proof (induction bs)
  case Nil
  then show ?case by simp
next
  case (Cons b bs)
  have "unat b < 256"
    using unsigned_less [of b] by simp
  with Cons show ?case by simp
qed

lemma length_word_bytes [simp]: "length (word_bytes n w) = n"
  by (simp add: word_bytes_def)

lemma bytes_word_word_bytes [simp]:
  "LENGTH('a) = 8 * n \<Longrightarrow> bytes_word (word_bytes n (w :: 'a::len word)) = w"
proof -
  assume len: "LENGTH('a) = 8 * n"
  have "(256::nat) ^ n = 2 ^ LENGTH('a)"
    by (simp add: len power_mult)
  then have "unat w mod 256 ^ n = unat w"
    using unsigned_less [of w] by simp
  then show ?thesis
    by (simp add: bytes_word_def word_bytes_def le_dec_le_enc)
qed

lemma word_bytes_eq_iff:
  "LENGTH('a) = 8 * n \<Longrightarrow> word_bytes n (a :: 'a::len word) = word_bytes n b \<longleftrightarrow> a = b"
  by (metis bytes_word_word_bytes)

lemma le_enc_numeral:
  "le_enc (numeral k) v = word_of_nat (v mod 256) # le_enc (pred_numeral k) (v div 256)"
proof -
  have "numeral k = Suc (pred_numeral k)" by (rule numeral_eq_Suc)
  then show ?thesis by (simp only: le_enc.simps)
qed

lemma le_enc_le_dec: "le_enc (length bs) (le_dec bs) = bs"
proof (induction bs)
  case Nil
  then show ?case by simp
next
  case (Cons b bs)
  have "unat b < 256" using unsigned_less [of b] by simp
  then have "(unat b + 256 * le_dec bs) mod 256 = unat b" "(unat b + 256 * le_dec bs) div 256 = le_dec bs"
    by simp_all
  with Cons show ?case by simp
qed

lemma word_bytes_bytes_word:
  assumes "length bs = n" and "LENGTH('a) = 8 * n"
  shows "word_bytes n (bytes_word bs :: 'a::len word) = bs"
proof -
  have "(256::nat) ^ n = 2 ^ LENGTH('a)"
    by (simp add: assms(2) power_mult)
  then have "le_dec bs < 2 ^ LENGTH('a)"
    using le_dec_less [of bs] assms(1) by simp
  then have "unat (word_of_nat (le_dec bs) :: 'a word) = le_dec bs"
    by (simp add: unat_of_nat)
  then show ?thesis
    using le_enc_le_dec [of bs] assms(1) by (simp add: word_bytes_def bytes_word_def)
qed

lemma bytes_word_inj:
  assumes "length a = n" and "length b = n" and "LENGTH('a) = 8 * n"
    and "(bytes_word a :: 'a::len word) = bytes_word b"
  shows "a = b"
  by (metis assms word_bytes_bytes_word)

lemma xor_bit_ne: "j < 8 \<Longrightarrow> (c :: byte) XOR push_bit j 1 \<noteq> c"
proof
  assume j: "j < 8" and eq: "c XOR push_bit j 1 = c"
  have "bit (c XOR push_bit j 1) j \<noteq> bit c j"
    using j by (simp add: bit_simps)
  with eq show False by simp
qed

subsection \<open>Facts: memory\<close>

lemma length_splice [simp]: "k + length ys \<le> length xs \<Longrightarrow> length (splice xs k ys) = length xs"
  by (simp add: splice_def)

lemma memcpy_in_bounds [mem_simps]:
  "soff + n \<le> length src \<Longrightarrow> doff + n \<le> length dst \<Longrightarrow>
   memcpy dst doff src soff n = Inr (splice dst doff (take n (drop soff src)))"
  by (simp add: memcpy_def mem_read_def mem_write_def)

lemma memcpy_Inr_bounds:
  "memcpy dst doff src soff n = Inr r \<Longrightarrow> soff + n \<le> length src \<and> doff + n \<le> length dst"
  by (auto simp: memcpy_def mem_read_def mem_write_def bindE_eq_Inr split: if_splits)

lemma memcpy_Inr_eq:
  "memcpy dst doff src soff n = Inr r \<Longrightarrow> r = splice dst doff (take n (drop soff src))"
  by (auto simp: memcpy_def mem_read_def mem_write_def bindE_eq_Inr split: if_splits)

subsection \<open>Facts: lists, prefixes written by consecutive copies\<close>

lemma splice_Nil [simp]: "splice xs 0 [] = xs"
  by (simp add: splice_def)

lemma take_splice_prefix [simp]:
  "length ys = k \<Longrightarrow> take k (splice xs 0 ys) = ys"
  by (simp add: splice_def)

lemma splice_append:
  "k + length ys + length zs \<le> length xs \<Longrightarrow>
   splice (splice xs k ys) (k + length ys) zs = splice xs k (ys @ zs)"
proof -
  assume len: "k + length ys + length zs \<le> length xs"
  then have "take (k + length ys) (take k xs @ ys @ drop (k + length ys) xs) = take k xs @ ys"
    by simp
  moreover have "drop (k + length ys + length zs) (take k xs @ ys @ drop (k + length ys) xs)
      = drop (k + (length ys + length zs)) xs"
    using len by (simp add: ac_simps)
  ultimately show ?thesis
    by (simp add: splice_def ac_simps)
qed

lemma take_drop_append_split:
  "take m (drop n xs) @ take k (drop (n + m) xs) = take (m + k) (drop n xs)"
  by (metis add.commute drop_drop take_add)

lemma take_append_slices:
  assumes "length s = md" and "take (rs - p2) w = drop p2 I"
    and "s @ drop p2 I = drop kd I" and "rs - kd = md + (rs - p2)"
  shows "take (rs - kd) (s @ w) = drop kd I"
  using assms by simp

lemma splice_append_right:
  "length xs \<le> k \<Longrightarrow> splice (xs @ ys) k zs = xs @ splice ys (k - length xs) zs"
  by (simp add: splice_def)

lemma splice_append_left:
  "k + length zs \<le> length xs \<Longrightarrow> splice (xs @ ys) k zs = splice xs k zs @ ys"
  by (simp add: splice_def)

lemma splice_across:
  assumes "k \<le> length xs" and "length xs \<le> k + length zs"
  shows "splice (xs @ ys) k zs =
         splice xs k (take (length xs - k) zs) @ splice ys 0 (drop (length xs - k) zs)"
  using assms by (simp add: splice_def add.commute)

lemma splice_whole [simp]: "length ys = length xs \<Longrightarrow> splice xs 0 ys = ys"
  by (simp add: splice_def)

subsection \<open>Facts: little-endian fields read in part\<close>

lemma le_dec_append: "le_dec (xs @ ys) = le_dec xs + 256 ^ length xs * le_dec ys"
  by (induction xs) simp_all

lemma drop_le_enc: "drop k (le_enc m v) = le_enc (m - k) (v div 256 ^ k)"
proof (induction k arbitrary: m v)
  case 0
  then show ?case by simp
next
  case (Suc k)
  then show ?case
    by (cases m) (simp_all add: div_mult2_eq)
qed

text \<open>A short read of \<open>k < 8\<close> bytes over a 64-bit field keeps its upper bytes.\<close>

lemma short_read_field_bound:
  assumes "length got < 8" and "old < 2 ^ 32"
  shows "le_dec (splice (le_enc 8 old) 0 got) < 2 ^ 56 + 2 ^ 32"
proof -
  let ?k = "length got"
  have sp: "splice (le_enc 8 old) 0 got = got @ le_enc (8 - ?k) (old div 256 ^ ?k)"
    by (simp add: splice_def drop_le_enc)
  have a: "le_dec got < 256 ^ ?k" by (rule le_dec_less)
  have b: "256 ^ ?k * le_dec (le_enc (8 - ?k) (old div 256 ^ ?k)) \<le> 256 ^ ?k * (old div 256 ^ ?k)"
    by (simp add: le_dec_le_enc)
  have c: "256 ^ ?k * (old div 256 ^ ?k) \<le> old"
    by (rule times_div_less_eq_dividend)
  have d: "(256::nat) ^ ?k \<le> 2 ^ 56"
  proof -
    have "(256::nat) ^ ?k \<le> 256 ^ 7"
      using assms(1) by (intro power_increasing) simp_all
    then show ?thesis by simp
  qed
  have "le_dec (splice (le_enc 8 old) 0 got) =
        le_dec got + 256 ^ ?k * le_dec (le_enc (8 - ?k) (old div 256 ^ ?k))"
    by (simp only: sp le_dec_append)
  then show ?thesis
    using a b c d assms(2) by linarith
qed

end
