(* ===== verification/Jrec.thy ===== *)
theory Jrec
  imports Prelude
begin

text \<open>
  The record header and tail shared by every journal record (\<open>rec_hdr_t\<close>,
  \<open>txn_hdr_t\<close>, \<open>rec_tail_t\<close>), the journal constants, the dblk arithmetic of
  \<open>jrec::size_dblks\<close>, and the validity checks \<open>jrec::chk_hdr\<close>, \<open>jrec::chk_rid\<close> and
  \<open>jrec::chk_tail\<close> with the transaction-record overloads of \<open>txn_rec.cpp\<close>.
  The structs, constants and \<open>jrec\<close> checks are declared outside \<open>src/\<close>
  and are modelled from the specification (section 6): little-endian fields, the
  header \<open>magic:4 version:2 uflag:2 rid:8\<close> followed by \<open>xidsize:8\<close>, the tail
  \<open>xmagic:4 checksum:4 rid:8\<close> (the field lists of \<open>txn_hdr_init\<close> and
  \<open>rec_tail_init\<close> as the source calls them).
\<close>

subsection \<open>Constants\<close>

definition JRNL_DBLK_SIZE :: nat where
  "JRNL_DBLK_SIZE = 128"

definition QLS_JRNL_VERSION :: u16 where
  "QLS_JRNL_VERSION = 2"

definition QLS_TXA_MAGIC :: u32 where
  "QLS_TXA_MAGIC = 0x61534c51"

definition QLS_TXC_MAGIC :: u32 where
  "QLS_TXC_MAGIC = 0x63534c51"

definition REC_HDR_SIZE :: nat where
  "REC_HDR_SIZE = 16"

definition TXN_HDR_SIZE :: nat where
  "TXN_HDR_SIZE = 24"

definition REC_TAIL_SIZE :: nat where
  "REC_TAIL_SIZE = 16"

text \<open>
  The sizes enter the codec proofs only through the facts below: a dblk is at least
  one header long (the source's ``the header will always fit into the first dblk''),
  and the tail is shorter than a dblk.
\<close>

subsection \<open>Dblk arithmetic\<close>

text \<open>
  \<open>jrec::size_dblks\<close> rounds a byte count up to whole dblks, computed in \<open>size_t\<close> and
  returned as \<open>uint32_t\<close>.
\<close>

definition size_dblks :: "nat \<Rightarrow> nat" where
  "size_dblks sz = trunc 32 ((sz + JRNL_DBLK_SIZE - 1) div JRNL_DBLK_SIZE)"

definition dblks_up :: "nat \<Rightarrow> nat" where
  "dblks_up sz = (sz + JRNL_DBLK_SIZE - 1) div JRNL_DBLK_SIZE"

subsection \<open>Header and tail\<close>

record rec_hdr_t =
  magic :: u32
  version :: u16
  uflag :: u16
  rid :: u64

record txn_hdr_t =
  rhdr :: rec_hdr_t
  xidsize :: u64

text \<open>\<open>txn_hdr_init(&h, magic, version, uflag, rid, xidsize)\<close>.\<close>

definition txn_hdr_init :: "u32 \<Rightarrow> u16 \<Rightarrow> u16 \<Rightarrow> u64 \<Rightarrow> u64 \<Rightarrow> txn_hdr_t" where
  "txn_hdr_init m v f r x =
     \<lparr>rhdr = \<lparr>magic = m, version = v, uflag = f, rid = r\<rparr>, xidsize = x\<rparr>"

definition rec_hdr_bytes :: "rec_hdr_t \<Rightarrow> byte list" where
  "rec_hdr_bytes h =
     word_bytes 4 (magic h) @ word_bytes 2 (version h) @ word_bytes 2 (uflag h) @ word_bytes 8 (rid h)"

definition txn_hdr_bytes :: "txn_hdr_t \<Rightarrow> byte list" where
  "txn_hdr_bytes t = rec_hdr_bytes (rhdr t) @ word_bytes 8 (xidsize t)"

text \<open>
  The tail is kept as the raw bytes of the \<open>rec_tail_t\<close> object: the decoder fills it
  by \<open>memcpy\<close> at arbitrary byte offsets, and the encoder copies it out the same way.
  Its fields are read and written at their offsets.
\<close>

definition rec_tail_init :: "u32 \<Rightarrow> u32 \<Rightarrow> u64 \<Rightarrow> byte list" where
  "rec_tail_init xm cs r = word_bytes 4 xm @ word_bytes 4 cs @ word_bytes 8 r"

definition rec_tail_copy :: "rec_hdr_t \<Rightarrow> u32 \<Rightarrow> byte list" where
  "rec_tail_copy h cs = rec_tail_init (NOT (magic h)) cs (rid h)"

definition tail_xmagic :: "byte list \<Rightarrow> u32" where
  "tail_xmagic t = bytes_word (take 4 t)"

definition tail_rid :: "byte list \<Rightarrow> u64" where
  "tail_rid t = bytes_word (take 8 (drop 8 t))"

definition set_tail_xmagic :: "byte list \<Rightarrow> u32 \<Rightarrow> byte list" where
  "set_tail_xmagic t xm = word_bytes 4 xm @ drop 4 t"

definition set_tail_rid :: "byte list \<Rightarrow> u64 \<Rightarrow> byte list" where
  "set_tail_rid t r = take 8 t @ word_bytes 8 r @ drop 16 t"

definition tail_checksum :: "byte list \<Rightarrow> u32" where
  "tail_checksum t = bytes_word (take 4 (drop 4 t))"

subsection \<open>Checks\<close>

text \<open>
  \<open>jrec::chk_hdr\<close>: a null magic or a foreign format version is a bad header.
  \<open>txn_rec::chk_hdr()\<close> (lines 405--419) adds that the magic is one of the two
  transaction magics; \<open>txn_rec::chk_hdr(rid)\<close> (lines 421--426) adds
  \<open>jrec::chk_rid\<close>.
\<close>

definition jrec_chk_hdr :: "rec_hdr_t \<Rightarrow> unit res" where
  "jrec_chk_hdr h =
     (if magic h = 0 then Inl JERR_JREC_BADRECHDR
      else if version h \<noteq> QLS_JRNL_VERSION then Inl JERR_JREC_BADRECHDR
      else Inr ())"

definition jrec_chk_rid :: "rec_hdr_t \<Rightarrow> u64 \<Rightarrow> unit res" where
  "jrec_chk_rid h r = (if rid h \<noteq> r then Inl JERR_JREC_BADRECID else Inr ())"

definition jrec_chk_tail :: "byte list \<Rightarrow> rec_hdr_t \<Rightarrow> unit res" where
  "jrec_chk_tail t h =
     (if tail_xmagic t \<noteq> NOT (magic h) then Inl JERR_JREC_BADRECTAIL
      else if tail_rid t \<noteq> rid h then Inl JERR_JREC_BADRECTAIL
      else Inr ())"

definition chk_hdr :: "txn_hdr_t \<Rightarrow> unit res" where
  "chk_hdr t =
     bindE (jrec_chk_hdr (rhdr t))
       (\<lambda>_. if magic (rhdr t) \<noteq> QLS_TXA_MAGIC \<and> magic (rhdr t) \<noteq> QLS_TXC_MAGIC
            then Inl JERR_JREC_BADRECHDR else Inr ())"

definition chk_hdr_rid :: "txn_hdr_t \<Rightarrow> u64 \<Rightarrow> unit res" where
  "chk_hdr_rid t r = bindE (chk_hdr t) (\<lambda>_. jrec_chk_rid (rhdr t) r)"

definition chk_tail :: "txn_hdr_t \<Rightarrow> byte list \<Rightarrow> unit res" where
  "chk_tail t tb = jrec_chk_tail tb (rhdr t)"

subsection \<open>Facts: Constants\<close>

lemma dblk_pos [simp]: "0 < JRNL_DBLK_SIZE"
  by (simp add: JRNL_DBLK_SIZE_def)

lemma hdr_le_dblk: "TXN_HDR_SIZE \<le> JRNL_DBLK_SIZE"
  by (simp add: TXN_HDR_SIZE_def JRNL_DBLK_SIZE_def)

lemma tail_lt_dblk: "REC_TAIL_SIZE < JRNL_DBLK_SIZE"
  by (simp add: REC_TAIL_SIZE_def JRNL_DBLK_SIZE_def)

lemma hdr_lt_dblk: "TXN_HDR_SIZE < JRNL_DBLK_SIZE"
  by (simp add: TXN_HDR_SIZE_def JRNL_DBLK_SIZE_def)

lemma dblk_le_mult: "0 < m \<Longrightarrow> JRNL_DBLK_SIZE \<le> m * JRNL_DBLK_SIZE"
  by simp

lemma tail_pos [simp]: "0 < REC_TAIL_SIZE"
  by (simp add: REC_TAIL_SIZE_def)

lemma rec_hdr_lt_txn_hdr: "REC_HDR_SIZE + 8 = TXN_HDR_SIZE"
  by (simp add: REC_HDR_SIZE_def TXN_HDR_SIZE_def)

subsection \<open>Facts: Dblk arithmetic\<close>

lemma dblks_up_le_iff: "dblks_up sz \<le> m \<longleftrightarrow> sz \<le> m * JRNL_DBLK_SIZE"
proof -
  have "dblks_up sz \<le> m \<longleftrightarrow> dblks_up sz < Suc m"
    by (rule less_Suc_eq_le [symmetric])
  also have "\<dots> \<longleftrightarrow> sz + JRNL_DBLK_SIZE - 1 < Suc m * JRNL_DBLK_SIZE"
    unfolding dblks_up_def using dblk_pos by (rule div_less_iff_less_mult)
  also have "\<dots> \<longleftrightarrow> sz \<le> m * JRNL_DBLK_SIZE"
    using dblk_pos by (simp only: mult_Suc) arith
  finally show ?thesis .
qed

lemma dblks_up_le_self: "dblks_up sz \<le> sz"
proof -
  have "sz \<le> sz * JRNL_DBLK_SIZE"
    using dblk_pos by (simp add: Suc_leI)
  then show ?thesis
    by (simp add: dblks_up_le_iff)
qed

lemma size_dblks_exact [uarith]: "sz < 2 ^ 32 \<Longrightarrow> size_dblks sz = dblks_up sz"
proof -
  assume "sz < 2 ^ 32"
  then have "dblks_up sz < 2 ^ 32"
    using dblks_up_le_self by (rule le_less_trans [rotated])
  then show ?thesis
    unfolding size_dblks_def dblks_up_def [symmetric] by (rule trunc_id)
qed

lemma dblks_up_less_iff: "k < dblks_up sz \<longleftrightarrow> k * JRNL_DBLK_SIZE < sz"
  using dblks_up_le_iff [of sz k] by linarith

lemma dblks_up_add_mult: "dblks_up (a + k * JRNL_DBLK_SIZE) = dblks_up a + k"
proof -
  have "a + k * JRNL_DBLK_SIZE + JRNL_DBLK_SIZE - 1 = (a + JRNL_DBLK_SIZE - 1) + k * JRNL_DBLK_SIZE"
    using dblk_pos by arith
  then show ?thesis
    unfolding dblks_up_def using dblk_pos by (simp only: div_mult_self1 neq0_conv)
qed

lemma dblks_up_mult [simp]: "dblks_up (m * JRNL_DBLK_SIZE) = m"
  using dblks_up_add_mult [of 0 m] by (simp add: dblks_up_def)

lemma dblks_up_ge: "sz \<le> dblks_up sz * JRNL_DBLK_SIZE"
  using dblks_up_le_iff [of sz "dblks_up sz"] by simp

lemma dblks_up_shift: "k * JRNL_DBLK_SIZE \<le> sz \<Longrightarrow> dblks_up (sz - k * JRNL_DBLK_SIZE) = dblks_up sz - k"
proof -
  assume le: "k * JRNL_DBLK_SIZE \<le> sz"
  then have "dblks_up sz = dblks_up (sz - k * JRNL_DBLK_SIZE + k * JRNL_DBLK_SIZE)"
    by simp
  also have "\<dots> = dblks_up (sz - k * JRNL_DBLK_SIZE) + k"
    by (rule dblks_up_add_mult)
  finally show ?thesis by simp
qed

subsection \<open>Facts: Header and tail\<close>

lemma length_txn_hdr_bytes [simp]: "length (txn_hdr_bytes t) = TXN_HDR_SIZE"
  by (simp add: txn_hdr_bytes_def rec_hdr_bytes_def TXN_HDR_SIZE_def)

lemma length_rec_tail_init [simp]: "length (rec_tail_init xm cs r) = REC_TAIL_SIZE"
  by (simp add: rec_tail_init_def REC_TAIL_SIZE_def)

lemma tail_fields_init [simp]:
  "tail_xmagic (rec_tail_init xm cs r) = xm"
  "tail_rid (rec_tail_init xm cs r) = r"
  by (simp_all add: tail_xmagic_def tail_rid_def rec_tail_init_def)

subsection \<open>Facts: Checks\<close>

lemma txn_hdr_bytes_xidsize:
  "bytes_word (take 8 (drop REC_HDR_SIZE (txn_hdr_bytes t @ rest))) = xidsize t"
  by (simp add: txn_hdr_bytes_def rec_hdr_bytes_def REC_HDR_SIZE_def)

lemma chk_hdr_bad_magic:
  "magic (rhdr t) \<noteq> QLS_TXA_MAGIC \<Longrightarrow> magic (rhdr t) \<noteq> QLS_TXC_MAGIC \<Longrightarrow>
   chk_hdr t = Inl JERR_JREC_BADRECHDR"
  by (simp add: chk_hdr_def jrec_chk_hdr_def)

end
