(* ===== verification/TxnRec.thy ===== *)
theory TxnRec
  imports Jrec
begin

text \<open>
  The \<open>txn_rec\<close> object of \<open>txn_rec.cpp\<close>: its four data members, the two
  constructors, the two \<open>reset\<close> overloads and the accessors \<open>xid_size\<close>,
  \<open>rec_size\<close>, \<open>rec_size_dblks\<close> and \<open>get_xid\<close>. The borrowed pointer \<open>_xidp\<close> is
  the caller's buffer (\<open>None\<close> for null); the owned \<open>_buff\<close> is the buffer the
  decoder allocates (\<open>None\<close> for null); \<open>_txn_tail\<close> is the raw tail object.
\<close>

record txn_rec =
  txn_hdr :: txn_hdr_t
  xidp :: "byte list option"
  buff :: "byte list option"
  txn_tail :: "byte list"

text \<open>\<open>txn_rec::txn_rec()\<close>, lines 38--46.\<close>

definition txn_rec_default :: txn_rec where
  "txn_rec_default =
     \<lparr>txn_hdr = txn_hdr_init 0 QLS_JRNL_VERSION 0 0 0, xidp = None, buff = None,
      txn_tail = rec_tail_init 0 0 0\<rparr>"

text \<open>\<open>txn_rec::txn_rec(magic, rid, xidp, xidlen)\<close>, lines 48--57.\<close>

definition txn_rec_new :: "u32 \<Rightarrow> u64 \<Rightarrow> byte list option \<Rightarrow> u64 \<Rightarrow> txn_rec" where
  "txn_rec_new m r x xl =
     (let h = txn_hdr_init m QLS_JRNL_VERSION 0 r xl
      in \<lparr>txn_hdr = h, xidp = x, buff = None, txn_tail = rec_tail_copy (rhdr h) 0\<rparr>)"

text \<open>\<open>txn_rec::reset(magic)\<close>, lines 64--74: the owned buffer pointer is cleared, not freed.\<close>

definition reset_magic :: "txn_rec \<Rightarrow> u32 \<Rightarrow> txn_rec" where
  "reset_magic t m =
     (let h = txn_hdr t
      in t\<lparr>txn_hdr := h\<lparr>rhdr := (rhdr h)\<lparr>magic := m, rid := 0\<rparr>, xidsize := 0\<rparr>,
           xidp := None, buff := None,
           txn_tail := set_tail_rid (set_tail_xmagic (txn_tail t) (NOT m)) 0\<rparr>)"

text \<open>\<open>txn_rec::reset(magic, rid, xidp, xidlen)\<close>, lines 76--88.\<close>

definition reset :: "txn_rec \<Rightarrow> u32 \<Rightarrow> u64 \<Rightarrow> byte list option \<Rightarrow> u64 \<Rightarrow> txn_rec" where
  "reset t m r x xl =
     (let h = txn_hdr t
      in t\<lparr>txn_hdr := h\<lparr>rhdr := (rhdr h)\<lparr>magic := m, rid := r\<rparr>, xidsize := xl\<rparr>,
           xidp := x, buff := None,
           txn_tail := set_tail_rid (set_tail_xmagic (txn_tail t) (NOT m)) r\<rparr>)"

text \<open>\<open>xid_size()\<close> (lines 393--397) and \<open>rec_size()\<close> (lines 399--403), in \<open>size_t\<close>.\<close>

definition xid_size :: "txn_rec \<Rightarrow> nat" where
  "xid_size t = unat (xidsize (txn_hdr t))"

definition rec_size :: "txn_rec \<Rightarrow> nat" where
  "rec_size t = trunc 64 (TXN_HDR_SIZE + xid_size t + REC_TAIL_SIZE)"

definition rec_size_dblks :: "txn_rec \<Rightarrow> nat" where
  "rec_size_dblks t = size_dblks (rec_size t)"

text \<open>\<open>get_xid(void** xidpp)\<close>, lines 366--376: the owned buffer and its length, or null and 0.\<close>

definition get_xid :: "txn_rec \<Rightarrow> byte list option \<times> nat" where
  "get_xid t = (case buff t of None \<Rightarrow> (None, 0) | Some b \<Rightarrow> (Some b, xid_size t))"

text \<open>
  The tail matches the header: the tail object has its size and passes
  \<open>chk_tail()\<close>. The constructor with fields and both \<open>reset\<close>s establish it; the
  default constructor does not (its tail holds magic 0, not the complement of 0).
\<close>

definition tail_consistent :: "txn_rec \<Rightarrow> bool" where
  "tail_consistent t \<longleftrightarrow>
     length (txn_tail t) = REC_TAIL_SIZE \<and> chk_tail (txn_hdr t) (txn_tail t) = Inr ()"

subsection \<open>Basic facts\<close>

lemma length_set_tail_fields [simp]:
  "length t = REC_TAIL_SIZE \<Longrightarrow> length (set_tail_xmagic t xm) = REC_TAIL_SIZE"
  "length t = REC_TAIL_SIZE \<Longrightarrow> length (set_tail_rid t r) = REC_TAIL_SIZE"
  by (simp_all add: set_tail_xmagic_def set_tail_rid_def REC_TAIL_SIZE_def)

lemma tail_fields_set [simp]:
  "length t = REC_TAIL_SIZE \<Longrightarrow> tail_xmagic (set_tail_rid (set_tail_xmagic t xm) r) = xm"
  "length t = REC_TAIL_SIZE \<Longrightarrow> tail_rid (set_tail_rid (set_tail_xmagic t xm) r) = r"
  by (simp_all add: set_tail_xmagic_def set_tail_rid_def tail_xmagic_def tail_rid_def
      REC_TAIL_SIZE_def)

lemma rec_size_exact:
  "TXN_HDR_SIZE + xid_size t + REC_TAIL_SIZE < 2 ^ 64 \<Longrightarrow>
   rec_size t = TXN_HDR_SIZE + xid_size t + REC_TAIL_SIZE"
  by (simp add: rec_size_def trunc_id)

lemma reset_tail:
  assumes "length t = REC_TAIL_SIZE"
  shows "set_tail_rid (set_tail_xmagic t xm) r = word_bytes 4 xm @ take 4 (drop 4 t) @ word_bytes 8 r"
  using assms by (simp add: set_tail_rid_def set_tail_xmagic_def REC_TAIL_SIZE_def)

lemma reset_fields:
  assumes T: "length (txn_tail t) = REC_TAIL_SIZE"
  shows "reset t m r x xl =
           (txn_rec_new m r x xl)\<lparr>
              txn_hdr := txn_hdr_init m (version (rhdr (txn_hdr t))) (uflag (rhdr (txn_hdr t))) r xl,
              txn_tail := rec_tail_init (NOT m) (tail_checksum (txn_tail t)) r\<rparr>"
proof -
  have "take 4 (drop 4 (txn_tail t)) = word_bytes 4 (tail_checksum (txn_tail t))"
    using T word_bytes_bytes_word [where 'a = 32, of "take 4 (drop 4 (txn_tail t))" 4]
    by (simp add: tail_checksum_def REC_TAIL_SIZE_def)
  then have "set_tail_rid (set_tail_xmagic (txn_tail t) (NOT m)) r =
             rec_tail_init (NOT m) (tail_checksum (txn_tail t)) r"
    using reset_tail [OF T] by (simp add: rec_tail_init_def)
  then show ?thesis
    by (cases t) (simp add: reset_def txn_rec_new_def txn_hdr_init_def Let_def)
qed

subsection \<open>Reuse by \<open>reset\<close>\<close>

text \<open>
  C11. Idempotent reset: resetting an object whose header carries the journal version
  and no user flags, and whose tail checksum is 0, gives exactly the object the
  constructor builds from the same fields, so everything encoded from it afterwards is
  what a fresh object would encode.
\<close>

theorem reset_as_new:
  assumes T: "length (txn_tail t) = REC_TAIL_SIZE"
    and v: "version (rhdr (txn_hdr t)) = QLS_JRNL_VERSION" and f: "uflag (rhdr (txn_hdr t)) = 0"
    and cs: "tail_checksum (txn_tail t) = 0"
  shows "reset t m r x xl = txn_rec_new m r x xl"
  using reset_fields [OF T, of m r x xl] v f cs
  by (simp add: txn_rec_new_def txn_hdr_init_def rec_tail_copy_def Let_def)

theorem reset_as_new_witness:
  "reset txn_rec_default QLS_TXC_MAGIC 5 (Some [1, 2, 3]) 3 = txn_rec_new QLS_TXC_MAGIC 5 (Some [1, 2, 3]) 3"
proof -
  have "length (txn_tail txn_rec_default) = REC_TAIL_SIZE"
    "version (rhdr (txn_hdr txn_rec_default)) = QLS_JRNL_VERSION"
    "uflag (rhdr (txn_hdr txn_rec_default)) = 0" "tail_checksum (txn_tail txn_rec_default) = 0"
    by (simp_all add: txn_rec_default_def txn_hdr_init_def tail_checksum_def rec_tail_init_def REC_TAIL_SIZE_def)
  then show ?thesis by (rule reset_as_new)
qed

text \<open>
  C12. Tail invariant: the constructor with fields, \<open>reset(magic, rid, xidp, xidlen)\<close>
  and \<open>reset(magic)\<close> all leave a tail that matches the header (complemented magic,
  same record id), whatever object they start from, provided its tail object has its
  size.
\<close>

theorem tail_consistent_reset:
  assumes "length (txn_tail t) = REC_TAIL_SIZE"
  shows "tail_consistent (txn_rec_new m r x xl) \<and> tail_consistent (reset t m r x xl) \<and>
         tail_consistent (reset_magic t m)"
  using assms by (simp add: tail_consistent_def txn_rec_new_def txn_hdr_init_def rec_tail_copy_def
      reset_def reset_magic_def chk_tail_def jrec_chk_tail_def Let_def)

theorem tail_consistent_reset_witness:
  "tail_consistent (txn_rec_new QLS_TXA_MAGIC 1 None 0) \<and>
   tail_consistent (reset txn_rec_default QLS_TXA_MAGIC 1 None 0) \<and>
   tail_consistent (reset_magic txn_rec_default QLS_TXA_MAGIC)"
proof -
  have "length (txn_tail txn_rec_default) = REC_TAIL_SIZE"
    by (simp add: txn_rec_default_def)
  then show ?thesis by (rule tail_consistent_reset)
qed

end
