(* ===== verification/Encode.thy ===== *)
theory Encode
  imports TxnRec
begin

text \<open>
  \<open>txn_rec::encode\<close> (\<open>txn_rec.cpp\<close>, lines 90--196): writes the part of the record
  that starts \<open>rec_offs_dblks\<close> dblks into it, at most \<open>max_size_dblks\<close> dblks, to
  the page at \<open>wptr\<close>, and returns the number of dblks written. The page is the
  destination buffer (\<open>None\<close> for a null \<open>wptr\<close>); the result is the page after
  the copies and the count. Each branch of the source is a definition of its own:
  \<open>encode_first\<close> (record start, lines 158--194), \<open>encode_split\<close> (continuation
  needing a further split, lines 102--132), \<open>encode_last\<close> (continuation that
  completes the record, lines 133--156). \<open>RHM_CLEAN\<close> is off in the default build,
  so the filler \<open>memset\<close>s are not part of the model.
\<close>

subsection \<open>The copy idioms of the encoder\<close>

text \<open>
  \<open>memcpy((char*)wptr + wr_cnt, src + soff, n); wr_cnt += n;\<close>: the destination and
  the running count \<open>wr_cnt\<close> travel together.
\<close>

definition put :: "byte list \<times> nat \<Rightarrow> byte list \<Rightarrow> nat \<Rightarrow> nat \<Rightarrow> (byte list \<times> nat) res" where
  "put dw src soff n =
     (case dw of (dst, wr) \<Rightarrow> bindE (memcpy dst wr src soff n) (\<lambda>dst'. Inr (dst', wr + n)))"

text \<open>
  The clamped copy of the split branch (lines 107--114 and 120--127):
  \<open>if (wsize) { if (wsize > rem) wsize = rem; memcpy(...); wr_cnt += wsize; rem -= wsize; }\<close>.
\<close>

definition copy_clamped ::
  "(byte list \<times> nat) \<times> nat \<Rightarrow> byte list \<Rightarrow> nat \<Rightarrow> nat \<Rightarrow> ((byte list \<times> nat) \<times> nat) res" where
  "copy_clamped st src soff wsize =
     (case st of (dw, rem) \<Rightarrow>
        if wsize \<noteq> 0 then
          (let w = (if wsize > rem then rem else wsize)
           in bindE (put dw src soff w) (\<lambda>dw'. Inr (dw', rem - w)))
        else Inr (dw, rem))"

subsection \<open>The three branches\<close>

text \<open>Continuation of a split record that needs a further split (lines 102--132).\<close>

definition encode_split ::
  "txn_rec \<Rightarrow> byte list \<Rightarrow> byte list \<Rightarrow> nat \<Rightarrow> nat \<Rightarrow> (byte list \<times> nat) res" where
  "encode_split r xid dst rec_offs rem =
     (let xs = xid_size r;
          ro = usub 64 rec_offs TXN_HDR_SIZE;
          wsize = (if xs > ro then xs - ro else 0)
      in bindE (copy_clamped ((dst, 0), rem) xid ro wsize)
           (\<lambda>(dw, rem).
              let ro = usub 64 ro (xs - wsize)
              in bindE
                   (if rem \<noteq> 0 then
                      (let wsize = (if REC_TAIL_SIZE > ro then REC_TAIL_SIZE - ro else 0)
                       in bindE (copy_clamped (dw, rem) (txn_tail r) ro wsize)
                            (\<lambda>(dw, rem). Inr (dw, rem, usub 64 ro (REC_TAIL_SIZE - wsize))))
                    else Inr (dw, rem, ro))
                   (\<lambda>(dw, rem, ro).
                      if rem \<noteq> 0 then Inl Assert_failed
                      else if ro \<noteq> 0 then Inl Assert_failed
                      else Inr dw)))"

text \<open>Continuation that completes the record (lines 133--156).\<close>

definition encode_last ::
  "txn_rec \<Rightarrow> byte list \<Rightarrow> byte list \<Rightarrow> nat \<Rightarrow> (byte list \<times> nat) res" where
  "encode_last r xid dst rec_offs =
     (let xs = xid_size r;
          ro = usub 64 rec_offs TXN_HDR_SIZE;
          wsize = (if xs > ro then xs - ro else 0)
      in bindE (if wsize \<noteq> 0 then put (dst, 0) xid ro wsize else Inr (dst, 0))
           (\<lambda>dw.
              let ro = usub 64 ro (xs - wsize);
                  wsize = (if REC_TAIL_SIZE > ro then REC_TAIL_SIZE - ro else 0)
              in bindE (if wsize \<noteq> 0 then put dw (txn_tail r) ro wsize else Inr dw)
                   (\<lambda>dw. if usub 64 ro (REC_TAIL_SIZE - wsize) \<noteq> 0 then Inl Assert_failed
                         else Inr dw)))"

text \<open>Start of the record (lines 158--194): the header first, then a split or the whole.\<close>

definition encode_first ::
  "txn_rec \<Rightarrow> byte list \<Rightarrow> byte list \<Rightarrow> nat \<Rightarrow> nat \<Rightarrow> (byte list \<times> nat) res" where
  "encode_first r xid dst max_size_dblks rem =
     bindE (put (dst, 0) (txn_hdr_bytes (txn_hdr r)) 0 TXN_HDR_SIZE)
       (\<lambda>dw.
          if size_dblks (rec_size r) > max_size_dblks then
            (let rem = usub 64 rem TXN_HDR_SIZE
             in bindE
                  (if rem \<noteq> 0 then
                     (let w = (if rem \<ge> xid_size r then xid_size r else rem)
                      in bindE (put dw xid 0 w) (\<lambda>dw. Inr (dw, rem - w)))
                   else Inr (dw, rem))
                  (\<lambda>(dw, rem).
                     bindE
                       (if rem \<noteq> 0 then
                          (let w = (if rem \<ge> REC_TAIL_SIZE then REC_TAIL_SIZE else rem)
                           in bindE (put dw (txn_tail r) 0 w) (\<lambda>dw. Inr (dw, rem - w)))
                        else Inr (dw, rem))
                       (\<lambda>(dw, rem). if rem \<noteq> 0 then Inl Assert_failed else Inr dw)))
          else bindE (put dw xid 0 (xid_size r)) (\<lambda>dw. put dw (txn_tail r) 0 REC_TAIL_SIZE))"

subsection \<open>The entry point\<close>

text \<open>
  The three \<open>assert\<close>s of lines 93--95 come first; \<open>rec_offs\<close> and \<open>rem\<close> are
  \<open>uint32_t\<close> products widened to \<open>size_t\<close>; the split test of line 102 is a
  \<open>uint32_t\<close> difference.
\<close>

definition encode ::
  "txn_rec \<Rightarrow> byte list option \<Rightarrow> nat \<Rightarrow> nat \<Rightarrow> (byte list \<times> nat) res" where
  "encode r wptr rec_offs_dblks max_size_dblks =
     (case wptr of None \<Rightarrow> Inl Assert_failed | Some dst \<Rightarrow>
      if max_size_dblks = 0 then Inl Assert_failed else
      (case xidp r of None \<Rightarrow> Inl Assert_failed | Some xid \<Rightarrow>
       if xid_size r = 0 then Inl Assert_failed else
       (let rec_offs = trunc 32 (rec_offs_dblks * JRNL_DBLK_SIZE);
            rem = trunc 32 (max_size_dblks * JRNL_DBLK_SIZE)
        in bindE
             (if rec_offs_dblks \<noteq> 0 then
                (if usub 32 (size_dblks (rec_size r)) rec_offs_dblks > max_size_dblks
                 then encode_split r xid dst rec_offs rem
                 else encode_last r xid dst rec_offs)
              else encode_first r xid dst max_size_dblks rem)
             (\<lambda>(dst', wr). Inr (dst', size_dblks wr)))))"


subsection \<open>The serialization a record encodes to\<close>

text \<open>
  \<open>enc_image\<close> is the byte string header, payload and tail that the encoder's calls
  lay out one after the other; \<open>enc_ready\<close> is what the three \<open>assert\<close>s and the
  buffer accesses of \<open>encode\<close> need of the record: a payload pointer whose buffer
  holds \<open>xidsize\<close> bytes, a non-empty payload, a tail object of the tail's size, and a
  record shorter than the \<open>uint32_t\<close> byte range of the offsets.
\<close>

definition enc_image :: "txn_rec \<Rightarrow> byte list \<Rightarrow> byte list" where
  "enc_image r xid = txn_hdr_bytes (txn_hdr r) @ take (xid_size r) xid @ txn_tail r"

definition enc_ready :: "txn_rec \<Rightarrow> byte list \<Rightarrow> bool" where
  "enc_ready r xid \<longleftrightarrow> xidp r = Some xid \<and> 0 < xid_size r \<and> xid_size r \<le> length xid \<and>
     length (txn_tail r) = REC_TAIL_SIZE \<and> TXN_HDR_SIZE + xid_size r + REC_TAIL_SIZE < 2 ^ 32"

subsection \<open>The journal driver\<close>

text \<open>
  The caller of \<open>encode\<close> (the journal's write path, outside \<open>src/\<close>, modelled
  from the specification, section 2): it hands the encoder one page after the other, each
  with its capacity in dblks, passes the running dblk offset, adds the count each call
  returns, and stops once the offset reaches \<open>rec_size_dblks\<close>. \<open>written\<close> is
  what reaches the file: the first \<open>n\<close> dblks of every page, in order.
\<close>

fun encode_run :: "txn_rec \<Rightarrow> nat \<Rightarrow> (byte list \<times> nat) list \<Rightarrow> (byte list \<times> nat) list res" where
  "encode_run r k [] = Inr []"
| "encode_run r k ((pg, m) # ps) =
     (if rec_size_dblks r \<le> k then Inr []
      else bindE (encode r (Some pg) k m)
             (\<lambda>(pg', n). bindE (encode_run r (k + n) ps) (\<lambda>rest. Inr ((pg', n) # rest))))"

definition written :: "(byte list \<times> nat) list \<Rightarrow> byte list" where
  "written pages = concat (map (\<lambda>(pg, n). take (n * JRNL_DBLK_SIZE) pg) pages)"

text \<open>
  What a correctly driven run from dblk offset \<open>k\<close> produces: counts adding up to
  the dblks left in the record, that many whole dblks written, and the record's
  serialization from byte \<open>k * JRNL_DBLK_SIZE\<close> at their start.
\<close>

definition run_image :: "txn_rec \<Rightarrow> byte list \<Rightarrow> nat \<Rightarrow> (byte list \<times> nat) list \<Rightarrow> bool" where
  "run_image r xid k pages \<longleftrightarrow>
     sum_list (map snd pages) = dblks_up (TXN_HDR_SIZE + xid_size r + REC_TAIL_SIZE) - k \<and>
     length (written pages) = (dblks_up (TXN_HDR_SIZE + xid_size r + REC_TAIL_SIZE) - k) * JRNL_DBLK_SIZE \<and>
     take (TXN_HDR_SIZE + xid_size r + REC_TAIL_SIZE - k * JRNL_DBLK_SIZE) (written pages) =
       drop (k * JRNL_DBLK_SIZE) (enc_image r xid)"

subsection \<open>Lemmas\<close>


lemma put_acc:
  assumes "soff + n \<le> length src" and "wr = length acc" and "wr + n \<le> length dst"
  shows "put (splice dst 0 acc, wr) src soff n =
         Inr (splice dst 0 (acc @ take n (drop soff src)), wr + n)"
proof -
  have "length (splice dst 0 acc) = length dst"
    using assms(2,3) by simp
  with assms have "memcpy (splice dst 0 acc) wr src soff n =
      Inr (splice (splice dst 0 acc) (length acc) (take n (drop soff src)))"
    by (simp add: memcpy_in_bounds)
  moreover have "splice (splice dst 0 acc) (0 + length acc) (take n (drop soff src)) =
      splice dst 0 (acc @ take n (drop soff src))"
    using assms by (intro splice_append) simp
  ultimately show ?thesis
    by (simp add: put_def)
qed

lemma put_acc0:
  assumes "n \<le> length src" and "wr = length acc" and "wr + n \<le> length dst"
  shows "put (splice dst 0 acc, wr) src 0 n = Inr (splice dst 0 (acc @ take n src), wr + n)"
  using put_acc [of 0 n src wr acc dst] assms by simp

lemma put_start:
  assumes "soff + n \<le> length src" and "n \<le> length dst"
  shows "put (dst, 0) src soff n = Inr (splice dst 0 (take n (drop soff src)), n)"
  using put_acc [of soff n src 0 "[]" dst] assms by simp

lemma enc_ready_rec_size:
  "enc_ready r xid \<Longrightarrow> rec_size r = TXN_HDR_SIZE + xid_size r + REC_TAIL_SIZE"
  unfolding enc_ready_def by (rule rec_size_exact) simp

lemma enc_ready_size_dblks:
  assumes "enc_ready r xid"
  shows "size_dblks (rec_size r) = dblks_up (TXN_HDR_SIZE + xid_size r + REC_TAIL_SIZE)"
proof -
  have "TXN_HDR_SIZE + xid_size r + REC_TAIL_SIZE < 2 ^ 32"
    using assms by (simp add: enc_ready_def)
  then show ?thesis
    using assms by (simp add: enc_ready_rec_size size_dblks_exact)
qed

lemma length_enc_image:
  "enc_ready r xid \<Longrightarrow> length (enc_image r xid) = TXN_HDR_SIZE + xid_size r + REC_TAIL_SIZE"
  by (simp add: enc_image_def enc_ready_def min_def)

lemma drop_enc_image_xid:
  assumes "enc_ready r xid" and "TXN_HDR_SIZE \<le> p" and "p - TXN_HDR_SIZE \<le> xid_size r"
  shows "drop p (enc_image r xid) =
         take (xid_size r - (p - TXN_HDR_SIZE)) (drop (p - TXN_HDR_SIZE) xid) @ txn_tail r"
  using assms by (simp add: enc_image_def enc_ready_def drop_take)

lemma encode_first_whole:
  assumes ok: "enc_ready r xid"
    and fits: "TXN_HDR_SIZE + xid_size r + REC_TAIL_SIZE \<le> m * JRNL_DBLK_SIZE"
    and dst: "m * JRNL_DBLK_SIZE \<le> length dst"
  shows "encode_first r xid dst m rem =
         Inr (splice dst 0 (enc_image r xid), TXN_HDR_SIZE + xid_size r + REC_TAIL_SIZE)"
proof -
  have rs: "size_dblks (rec_size r) \<le> m"
    using ok fits by (simp add: enc_ready_size_dblks dblks_up_le_iff)
  let ?h = "txn_hdr_bytes (txn_hdr r)" and ?x = "take (xid_size r) xid"
  have 1: "put (dst, 0) ?h 0 TXN_HDR_SIZE = Inr (splice dst 0 ?h, length ?h)"
    using fits dst by (simp add: put_start)
  have lx: "length (?h @ ?x) = TXN_HDR_SIZE + xid_size r"
    using ok by (simp add: enc_ready_def)
  have 2: "put (splice dst 0 ?h, TXN_HDR_SIZE) xid 0 (xid_size r) =
           Inr (splice dst 0 (?h @ ?x), TXN_HDR_SIZE + xid_size r)"
    using ok fits dst by (intro put_acc0) (simp_all add: enc_ready_def)
  have 3: "put (splice dst 0 (?h @ ?x), TXN_HDR_SIZE + xid_size r) (txn_tail r) 0 REC_TAIL_SIZE =
           Inr (splice dst 0 (?h @ ?x @ txn_tail r), TXN_HDR_SIZE + xid_size r + REC_TAIL_SIZE)"
    using ok fits dst lx put_acc [of 0 REC_TAIL_SIZE "txn_tail r" "TXN_HDR_SIZE + xid_size r" "?h @ ?x" dst]
    by (simp add: enc_ready_def)
  from 1 2 3 rs show ?thesis
    by (simp add: encode_first_def enc_image_def)
qed

lemma encode_first_split:
  assumes ok: "enc_ready r xid" and m: "0 < m"
    and split: "m * JRNL_DBLK_SIZE < TXN_HDR_SIZE + xid_size r + REC_TAIL_SIZE"
    and dst: "m * JRNL_DBLK_SIZE \<le> length dst"
  shows "encode_first r xid dst m (m * JRNL_DBLK_SIZE) =
         Inr (splice dst 0 (take (m * JRNL_DBLK_SIZE) (enc_image r xid)), m * JRNL_DBLK_SIZE)"
proof -
  let ?h = "txn_hdr_bytes (txn_hdr r)" and ?x = "take (xid_size r) xid"
    and ?md = "m * JRNL_DBLK_SIZE"
  have X: "xid_size r \<le> length xid" and T: "length (txn_tail r) = REC_TAIL_SIZE"
    and b: "TXN_HDR_SIZE + xid_size r + REC_TAIL_SIZE < 2 ^ 32"
    using ok by (simp_all add: enc_ready_def)
  have hm: "TXN_HDR_SIZE < ?md"
    using hdr_lt_dblk dblk_le_mult [OF m] by linarith
  have rs: "m < size_dblks (rec_size r)"
    using ok split by (simp add: enc_ready_size_dblks dblks_up_le_iff not_le [symmetric])
  have rem1: "usub 64 ?md TXN_HDR_SIZE = ?md - TXN_HDR_SIZE"
    using hm split b by (intro usub64_small) linarith+
  have 1: "put (dst, 0) ?h 0 TXN_HDR_SIZE = Inr (splice dst 0 ?h, length ?h)"
    using hm dst by (simp add: put_start)
  show ?thesis
  proof (cases "?md - TXN_HDR_SIZE \<ge> xid_size r")
    case True
    have 2: "put (splice dst 0 ?h, TXN_HDR_SIZE) xid 0 (xid_size r) =
             Inr (splice dst 0 (?h @ ?x), TXN_HDR_SIZE + xid_size r)"
      using True dst hm X by (intro put_acc0) simp_all
    have lx: "TXN_HDR_SIZE + xid_size r = length (?h @ ?x)"
      using X by (simp add: min_def)
    let ?k = "?md - TXN_HDR_SIZE - xid_size r"
    have kT: "?k < REC_TAIL_SIZE"
      using split tail_pos by arith
    have 3: "put (splice dst 0 (?h @ ?x), TXN_HDR_SIZE + xid_size r) (txn_tail r) 0 ?k =
             Inr (splice dst 0 ((?h @ ?x) @ take ?k (txn_tail r)),
                  TXN_HDR_SIZE + xid_size r + ?k)"
    proof (rule put_acc0)
      show "?k \<le> length (txn_tail r)"
        using T kT by simp
      show "TXN_HDR_SIZE + xid_size r + ?k \<le> length dst"
        using dst True hm by arith
    qed (rule lx)
    have img: "take ?md (enc_image r xid) = ?h @ ?x @ take ?k (txn_tail r)"
      using True X hm by (simp add: enc_image_def min_def)
    show ?thesis
      using 1 2 3 rs rem1 hm True kT img
      by (simp add: encode_first_def Let_def) arith
  next
    case False
    let ?k = "?md - TXN_HDR_SIZE"
    have 2: "put (splice dst 0 ?h, TXN_HDR_SIZE) xid 0 ?k =
             Inr (splice dst 0 (?h @ take ?k xid), TXN_HDR_SIZE + ?k)"
      using False X dst hm by (intro put_acc0) simp_all
    have img: "take ?md (enc_image r xid) = ?h @ take ?k xid"
      using False X hm by (simp add: enc_image_def min_def)
    show ?thesis
      using 1 2 rs rem1 hm False img
      by (simp add: encode_first_def Let_def)
  qed
qed


lemma copy_clamped_fit:
  assumes "0 < wsize" and "wsize \<le> rem" and "soff + wsize \<le> length src"
    and "wr = length acc" and "wr + wsize \<le> length dst"
  shows "copy_clamped ((splice dst 0 acc, wr), rem) src soff wsize =
         Inr ((splice dst 0 (acc @ take wsize (drop soff src)), wr + wsize), rem - wsize)"
  using assms by (simp add: copy_clamped_def put_acc)

lemma copy_clamped_clamp:
  assumes "rem < wsize" and "soff + rem \<le> length src"
    and "wr = length acc" and "wr + rem \<le> length dst"
  shows "copy_clamped ((splice dst 0 acc, wr), rem) src soff wsize =
         Inr ((splice dst 0 (acc @ take rem (drop soff src)), wr + rem), 0)"
  using assms by (simp add: copy_clamped_def put_acc)

lemma encode_last_ok:
  assumes ok: "enc_ready r xid" and hp: "TXN_HDR_SIZE \<le> p"
    and inside: "p < TXN_HDR_SIZE + xid_size r + REC_TAIL_SIZE"
    and dst: "TXN_HDR_SIZE + xid_size r + REC_TAIL_SIZE - p \<le> length dst"
  shows "encode_last r xid dst p =
         Inr (splice dst 0 (drop p (enc_image r xid)), TXN_HDR_SIZE + xid_size r + REC_TAIL_SIZE - p)"
proof -
  have X: "xid_size r \<le> length xid" and T: "length (txn_tail r) = REC_TAIL_SIZE"
    and b: "TXN_HDR_SIZE + xid_size r + REC_TAIL_SIZE < 2 ^ 32"
    using ok by (simp_all add: enc_ready_def)
  let ?ro = "p - TXN_HDR_SIZE"
  have ro: "usub 64 p TXN_HDR_SIZE = ?ro"
    using hp inside b by (intro usub64_small) linarith+
  have rob: "?ro < 2 ^ 32"
    using inside b by linarith
  show ?thesis
  proof (cases "?ro < xid_size r")
    case True
    let ?a = "take (xid_size r - ?ro) (drop ?ro xid)"
    have 1: "put (dst, 0) xid ?ro (xid_size r - ?ro) = Inr (splice dst 0 ?a, xid_size r - ?ro)"
      using True X dst by (intro put_start) arith+
    have 2: "put (splice dst 0 ?a, xid_size r - ?ro) (txn_tail r) 0 REC_TAIL_SIZE =
             Inr (splice dst 0 (?a @ take REC_TAIL_SIZE (txn_tail r)), xid_size r - ?ro + REC_TAIL_SIZE)"
    proof (rule put_acc0)
      show "REC_TAIL_SIZE \<le> length (txn_tail r)" using T by simp
      show "xid_size r - ?ro = length ?a" using True X by simp
      show "xid_size r - ?ro + REC_TAIL_SIZE \<le> length dst" using True dst hp by arith
    qed
    have z: "usub 64 ?ro (xid_size r - (xid_size r - ?ro)) = 0"
      using True rob by (simp add: usub_self)
    have img: "drop p (enc_image r xid) = ?a @ txn_tail r"
      using drop_enc_image_xid [OF ok hp] True by simp
    have n: "xid_size r - ?ro + REC_TAIL_SIZE = TXN_HDR_SIZE + xid_size r + REC_TAIL_SIZE - p"
      using True hp by arith
    have pl: "p < xid_size r + TXN_HDR_SIZE"
      using True hp by arith
    show ?thesis
      using 1 2 z ro True img n T pl by (simp add: encode_last_def Let_def ac_simps)
  next
    case False
    let ?t = "?ro - xid_size r"
    have tT: "?t < REC_TAIL_SIZE"
      using inside hp tail_pos by arith
    let ?a = "take (REC_TAIL_SIZE - ?t) (drop ?t (txn_tail r))"
    have ro2: "usub 64 ?ro (xid_size r - 0) = ?t"
      using False rob usub64_small [of "xid_size r" ?ro] by simp
    have 1: "put (dst, 0) (txn_tail r) ?t (REC_TAIL_SIZE - ?t) = Inr (splice dst 0 ?a, REC_TAIL_SIZE - ?t)"
      using tT T dst False hp by (intro put_start) arith+
    have z: "usub 64 ?t (REC_TAIL_SIZE - (REC_TAIL_SIZE - ?t)) = 0"
      using tT rob by (simp add: usub_self)
    have img: "drop p (enc_image r xid) = ?a"
      using False X hp T by (simp add: enc_image_def)
    have n: "REC_TAIL_SIZE - ?t = TXN_HDR_SIZE + xid_size r + REC_TAIL_SIZE - p"
      using False hp tT by arith
    show ?thesis
      using 1 z ro ro2 False img n tT by (simp add: encode_last_def Let_def)
  qed
qed

lemma encode_split_ok:
  assumes ok: "enc_ready r xid" and hp: "TXN_HDR_SIZE \<le> p" and m: "0 < m"
    and split: "p + m * JRNL_DBLK_SIZE < TXN_HDR_SIZE + xid_size r + REC_TAIL_SIZE"
    and dst: "m * JRNL_DBLK_SIZE \<le> length dst"
  shows "encode_split r xid dst p (m * JRNL_DBLK_SIZE) =
         Inr (splice dst 0 (take (m * JRNL_DBLK_SIZE) (drop p (enc_image r xid))), m * JRNL_DBLK_SIZE)"
proof -
  let ?md = "m * JRNL_DBLK_SIZE" and ?ro = "p - TXN_HDR_SIZE"
  have X: "xid_size r \<le> length xid" and T: "length (txn_tail r) = REC_TAIL_SIZE"
    and b: "TXN_HDR_SIZE + xid_size r + REC_TAIL_SIZE < 2 ^ 32"
    using ok by (simp_all add: enc_ready_def)
  have ro: "usub 64 p TXN_HDR_SIZE = ?ro"
    using hp split b by (intro usub64_small) linarith+
  have Tmd: "REC_TAIL_SIZE < ?md"
    using tail_lt_dblk dblk_le_mult [OF m] by linarith
  have inxid: "?ro < xid_size r"
    using split Tmd hp by arith
  have z: "usub 64 ?ro (xid_size r - (xid_size r - ?ro)) = 0"
    using inxid by simp
  let ?a = "xid_size r - ?ro"
  show ?thesis
  proof (cases "?md \<le> ?a")
    case True
    have 1: "copy_clamped ((splice dst 0 [], 0), ?md) xid ?ro ?a =
             Inr ((splice dst 0 ([] @ take ?md (drop ?ro xid)), 0 + ?md), 0)"
    proof (cases "?md < ?a")
      case True
      then show ?thesis
        using X dst by (intro copy_clamped_clamp) simp_all
    next
      case False
      with \<open>?md \<le> ?a\<close> have "?a = ?md" by simp
      have "copy_clamped ((splice dst 0 [], 0), ?md) xid ?ro ?md =
            Inr ((splice dst 0 ([] @ take ?md (drop ?ro xid)), 0 + ?md), ?md - ?md)"
        using X dst m inxid \<open>?a = ?md\<close> by (intro copy_clamped_fit) simp_all
      then show ?thesis
        using \<open>?a = ?md\<close> by simp
    qed
    have img: "take ?md (drop p (enc_image r xid)) = take ?md (drop ?ro xid)"
      using drop_enc_image_xid [OF ok hp] True inxid X by simp
    show ?thesis
      using 1 ro z inxid img by (simp add: encode_split_def Let_def)
  next
    case False
    let ?k = "?md - ?a"
    have kT: "?k < REC_TAIL_SIZE"
      using split False hp by arith
    have 1: "copy_clamped ((splice dst 0 [], 0), ?md) xid ?ro ?a =
             Inr ((splice dst 0 ([] @ take ?a (drop ?ro xid)), 0 + ?a), ?k)"
      using False X dst inxid by (intro copy_clamped_fit) simp_all
    have 2: "copy_clamped ((splice dst 0 (take ?a (drop ?ro xid)), ?a), ?k) (txn_tail r) 0 REC_TAIL_SIZE =
             Inr ((splice dst 0 (take ?a (drop ?ro xid) @ take ?k (drop 0 (txn_tail r))), ?a + ?k), 0)"
    proof (rule copy_clamped_clamp)
      show "?k < REC_TAIL_SIZE" by (rule kT)
      show "0 + ?k \<le> length (txn_tail r)" using kT T by simp
      show "?a = length (take ?a (drop ?ro xid))" using X inxid by simp
      show "?a + ?k \<le> length dst" using dst False by simp
    qed
    have img: "take ?md (drop p (enc_image r xid)) = take ?a (drop ?ro xid) @ take ?k (txn_tail r)"
      using drop_enc_image_xid [OF ok hp] False inxid X by simp
    have n: "?a + ?k = ?md"
      using False by simp
    have kpos: "xid_size r < ?md + ?ro"
      using False inxid by arith
    show ?thesis
      using 1 2 ro z inxid img n kpos by (simp add: encode_split_def Let_def)
  qed
qed

lemma written_Cons [simp]:
  "written ((pg, n) # ps) = take (n * JRNL_DBLK_SIZE) pg @ written ps"
  by (simp add: written_def)

lemma written_Nil [simp]: "written [] = []"
  by (simp add: written_def)

lemma encode_run_done:
  "rec_size_dblks r \<le> k \<Longrightarrow> encode_run r k ps = Inr []"
  by (cases ps) auto

lemma txn_rec_new_enc_ready:
  assumes "0 < unat xl" and "unat xl \<le> length x"
    and "TXN_HDR_SIZE + unat xl + REC_TAIL_SIZE < 2 ^ 32"
  shows "enc_ready (txn_rec_new m r (Some x) xl) x"
  using assms by (simp add: enc_ready_def txn_rec_new_def txn_hdr_init_def rec_tail_copy_def
      xid_size_def Let_def)

lemma txn_rec_new_xid_size [simp]: "xid_size (txn_rec_new m r x xl) = unat xl"
  by (simp add: txn_rec_new_def txn_hdr_init_def xid_size_def Let_def)

lemma encode_unfold:
  assumes ok: "enc_ready r xid" and m: "0 < m" and mb: "m * JRNL_DBLK_SIZE < 2 ^ 32"
    and kb: "k * JRNL_DBLK_SIZE < 2 ^ 32"
  shows "encode r (Some dst) k m =
      bindE (if k \<noteq> 0 then
               (if usub 32 (dblks_up (TXN_HDR_SIZE + xid_size r + REC_TAIL_SIZE)) k > m
                then encode_split r xid dst (k * JRNL_DBLK_SIZE) (m * JRNL_DBLK_SIZE)
                else encode_last r xid dst (k * JRNL_DBLK_SIZE))
             else encode_first r xid dst m (m * JRNL_DBLK_SIZE))
        (\<lambda>(dst', wr). Inr (dst', size_dblks wr))"
proof -
  have xr: "xidp r = Some xid" and X0: "xid_size r \<noteq> 0"
    using ok by (simp_all add: enc_ready_def)
  have sd: "size_dblks (rec_size r) = dblks_up (TXN_HDR_SIZE + xid_size r + REC_TAIL_SIZE)"
    using ok by (rule enc_ready_size_dblks)
  show ?thesis
    using m xr X0 sd kb mb by (simp add: encode_def trunc_id)
qed

lemma encode_call_first:
  assumes ok: "enc_ready r xid" and m: "0 < m" and mb: "m * JRNL_DBLK_SIZE < 2 ^ 32"
    and dst: "m * JRNL_DBLK_SIZE \<le> length dst"
  shows "encode r (Some dst) 0 m =
         Inr (splice dst 0 (take (m * JRNL_DBLK_SIZE) (enc_image r xid)),
              dblks_up (min (m * JRNL_DBLK_SIZE) (TXN_HDR_SIZE + xid_size r + REC_TAIL_SIZE)))"
proof -
  let ?rs = "TXN_HDR_SIZE + xid_size r + REC_TAIL_SIZE" and ?md = "m * JRNL_DBLK_SIZE"
  have b: "?rs < 2 ^ 32"
    using ok by (simp add: enc_ready_def)
  have e0: "encode r (Some dst) 0 m =
      bindE (encode_first r xid dst m ?md) (\<lambda>(dst', wr). Inr (dst', size_dblks wr))"
    using encode_unfold [OF ok m mb, of 0] by simp
  show ?thesis
  proof (cases "?rs \<le> ?md")
    case fits: True
    have "take ?md (enc_image r xid) = enc_image r xid"
      using fits length_enc_image [OF ok] by simp
    then show ?thesis
      using fits encode_first_whole [OF ok fits dst, of ?md] b
      by (simp add: e0 size_dblks_exact min_def)
  next
    case False
    then show ?thesis
      using encode_first_split [OF ok m _ dst] mb
      by (simp add: e0 size_dblks_exact min_def)
  qed
qed

lemma encode_call_cont:
  assumes ok: "enc_ready r xid" and m: "0 < m" and mb: "m * JRNL_DBLK_SIZE < 2 ^ 32"
    and dst: "m * JRNL_DBLK_SIZE \<le> length dst" and k: "0 < k"
    and inside: "k * JRNL_DBLK_SIZE < TXN_HDR_SIZE + xid_size r + REC_TAIL_SIZE"
  shows "encode r (Some dst) k m =
         Inr (splice dst 0 (take (m * JRNL_DBLK_SIZE) (drop (k * JRNL_DBLK_SIZE) (enc_image r xid))),
              dblks_up (min (m * JRNL_DBLK_SIZE) (TXN_HDR_SIZE + xid_size r + REC_TAIL_SIZE - k * JRNL_DBLK_SIZE)))"
proof -
  let ?rs = "TXN_HDR_SIZE + xid_size r + REC_TAIL_SIZE" and ?md = "m * JRNL_DBLK_SIZE"
    and ?p = "k * JRNL_DBLK_SIZE"
  have b: "?rs < 2 ^ 32"
    using ok by (simp add: enc_ready_def)
  have enc: "encode r (Some dst) k m =
      bindE (if usub 32 (dblks_up ?rs) k > m then encode_split r xid dst ?p ?md
             else encode_last r xid dst ?p)
        (\<lambda>(dst', wr). Inr (dst', size_dblks wr))"
    using encode_unfold [OF ok m mb, of k dst] k inside b by simp
  have hp: "TXN_HDR_SIZE \<le> ?p"
    using k hdr_le_dblk dblk_le_mult [of k] by linarith
  have od: "k < dblks_up ?rs"
    using inside by (simp add: dblks_up_less_iff)
  have db: "dblks_up ?rs < 2 ^ 32"
    using dblks_up_le_self [of ?rs] b by linarith
  have sub: "usub 32 (dblks_up ?rs) k = dblks_up ?rs - k"
    using od db by (intro usub_exact) simp_all
  have split_iff: "m < dblks_up ?rs - k \<longleftrightarrow> ?p + ?md < ?rs"
    using dblks_up_less_iff [of "k + m" ?rs] by (simp add: algebra_simps less_diff_conv)
  show ?thesis
  proof (cases "?p + ?md < ?rs")
    case True
    have "?md \<le> ?rs - ?p"
      using True by arith
    with mb show ?thesis
      using True split_iff sub encode_split_ok [OF ok hp m True dst]
      by (simp add: enc size_dblks_exact min_def)
  next
    case last: False
    have "?rs - ?p \<le> length dst"
      using last dst by arith
    moreover have "take ?md (drop ?p (enc_image r xid)) = drop ?p (enc_image r xid)"
      using last length_enc_image [OF ok] by simp
    moreover have "?rs - ?p < 2 ^ 32"
      using b by linarith
    moreover have "min ?md (?rs - ?p) = ?rs - ?p"
      using last by arith
    ultimately show ?thesis
      using last split_iff sub encode_last_ok [OF ok hp inside] inside
      by (simp add: enc size_dblks_exact)
  qed
qed

lemma encode_call:
  assumes ok: "enc_ready r xid" and m: "0 < m" and mb: "m * JRNL_DBLK_SIZE < 2 ^ 32"
    and dst: "m * JRNL_DBLK_SIZE \<le> length dst"
    and inside: "k * JRNL_DBLK_SIZE < TXN_HDR_SIZE + xid_size r + REC_TAIL_SIZE"
  shows "encode r (Some dst) k m =
         Inr (splice dst 0 (take (m * JRNL_DBLK_SIZE) (drop (k * JRNL_DBLK_SIZE) (enc_image r xid))),
              dblks_up (min (m * JRNL_DBLK_SIZE) (TXN_HDR_SIZE + xid_size r + REC_TAIL_SIZE - k * JRNL_DBLK_SIZE)))"
proof (cases "k = 0")
  case True
  then show ?thesis
    using encode_call_first [OF ok m mb dst] by simp
next
  case False
  then show ?thesis
    using encode_call_cont [OF ok m mb dst _ inside] by simp
qed

lemma encode_run_last:
  assumes ok: "enc_ready r xid"
    and m: "0 < m" "m * JRNL_DBLK_SIZE < 2 ^ 32" "m * JRNL_DBLK_SIZE \<le> length pg"
    and inside: "k * JRNL_DBLK_SIZE < TXN_HDR_SIZE + xid_size r + REC_TAIL_SIZE"
    and last: "TXN_HDR_SIZE + xid_size r + REC_TAIL_SIZE - k * JRNL_DBLK_SIZE \<le> m * JRNL_DBLK_SIZE"
  shows "\<exists>pages. encode_run r k ((pg, m) # ps) = Inr pages \<and> run_image r xid k pages"
proof -
  let ?rs = "TXN_HDR_SIZE + xid_size r + REC_TAIL_SIZE" and ?D = JRNL_DBLK_SIZE
  let ?s = "take (m * ?D) (drop (k * ?D) (enc_image r xid))" and ?t = "?rs - k * ?D"
  let ?n = "dblks_up (min (m * ?D) ?t)"
  have sd: "rec_size_dblks r = dblks_up ?rs"
    using ok by (simp add: rec_size_dblks_def enc_ready_size_dblks)
  have enc: "encode r (Some pg) k m = Inr (splice pg 0 ?s, ?n)"
    using encode_call [OF ok m inside] .
  have n: "?n = dblks_up ?rs - k"
    using last inside by (simp add: min_def dblks_up_shift)
  have nm: "?n \<le> m"
    using last by (simp add: dblks_up_le_iff min_def)
  have stop: "encode_run r (k + ?n) ps = Inr []"
    using n inside sd by (intro encode_run_done) (simp add: dblks_up_less_iff)
  have s: "?s = drop (k * ?D) (enc_image r xid)" and lst: "length ?s = ?t"
    using last length_enc_image [OF ok] by simp_all
  have lt: "?t \<le> ?n * ?D"
    using dblks_up_ge [of ?t] last by (simp add: min_def)
  have npg: "?n * ?D \<le> length pg"
    using nm m(3) by (meson le_trans mult_le_mono1)
  have lsp: "length (splice pg 0 ?s) = length pg"
    using lst last m(3) by (intro length_splice) simp
  have len: "length (take (?n * ?D) (splice pg 0 ?s)) = ?n * ?D"
    using npg lsp by simp
  have "take ?t (take (?n * ?D) (splice pg 0 ?s)) = take ?t (splice pg 0 ?s)"
    using lt by (simp add: min_def)
  then have pre: "take ?t (take (?n * ?D) (splice pg 0 ?s)) = ?s"
    using lst by simp
  have "\<not> dblks_up ?rs \<le> k"
    using inside by (simp add: dblks_up_le_iff)
  then show ?thesis
    using enc stop sd n len pre s by (simp add: run_image_def)
qed

lemma encode_run_more:
  assumes ok: "enc_ready r xid"
    and m: "0 < m" "m * JRNL_DBLK_SIZE < 2 ^ 32" "m * JRNL_DBLK_SIZE \<le> length pg"
    and more: "m * JRNL_DBLK_SIZE < TXN_HDR_SIZE + xid_size r + REC_TAIL_SIZE - k * JRNL_DBLK_SIZE"
    and run: "encode_run r (k + m) ps = Inr pages" and img: "run_image r xid (k + m) pages"
  shows "encode_run r k ((pg, m) # ps) =
           Inr ((splice pg 0 (take (m * JRNL_DBLK_SIZE) (drop (k * JRNL_DBLK_SIZE) (enc_image r xid))), m) # pages) \<and>
         run_image r xid k
           ((splice pg 0 (take (m * JRNL_DBLK_SIZE) (drop (k * JRNL_DBLK_SIZE) (enc_image r xid))), m) # pages)"
proof -
  let ?rs = "TXN_HDR_SIZE + xid_size r + REC_TAIL_SIZE" and ?D = JRNL_DBLK_SIZE
  let ?s = "take (m * ?D) (drop (k * ?D) (enc_image r xid))"
  have s1: "sum_list (map snd pages) = dblks_up ?rs - (k + m)"
    and l1: "length (written pages) = (dblks_up ?rs - (k + m)) * ?D"
    and t1: "take (?rs - (k + m) * ?D) (written pages) = drop ((k + m) * ?D) (enc_image r xid)"
    using img by (simp_all add: run_image_def)
  have inside: "k * ?D < ?rs" using more by arith
  have sd: "rec_size_dblks r = dblks_up ?rs"
    using ok by (simp add: rec_size_dblks_def enc_ready_size_dblks)
  have enc: "encode r (Some pg) k m = Inr (splice pg 0 ?s, m)"
    using encode_call [OF ok m inside] more by simp
  have lsm: "length ?s = m * ?D"
    using more length_enc_image [OF ok] by simp
  have km: "k + m < dblks_up ?rs"
    using more by (simp add: dblks_up_less_iff algebra_simps)
  have pgs: "take (m * ?D) (splice pg 0 ?s) = ?s"
    using lsm by simp
  have "drop ((k + m) * ?D) (enc_image r xid) = drop (m * ?D) (drop (k * ?D) (enc_image r xid))"
    by (simp add: add_mult_distrib add.commute)
  then have im: "?s @ drop ((k + m) * ?D) (enc_image r xid) = drop (k * ?D) (enc_image r xid)"
    by (metis append_take_drop_id)
  have sum: "m + (dblks_up ?rs - (k + m)) = dblks_up ?rs - k"
    using km by arith
  have "(dblks_up ?rs - k) * ?D = m * ?D + (dblks_up ?rs - (k + m)) * ?D"
    unfolding sum [symmetric] by (rule add_mult_distrib)
  then have len: "length (?s @ written pages) = (dblks_up ?rs - k) * ?D"
    using lsm l1 by simp
  have "?rs - k * ?D = m * ?D + (?rs - (k + m) * ?D)"
    using more unfolding add_mult_distrib by arith
  then have tk: "take (?rs - k * ?D) (?s @ written pages) = drop (k * ?D) (enc_image r xid)"
    by (rule take_append_slices [OF lsm t1 im])
  have "\<not> dblks_up ?rs \<le> k"
    using inside by (simp add: dblks_up_le_iff)
  then have "encode_run r k ((pg, m) # ps) = Inr ((splice pg 0 ?s, m) # pages)"
    using run enc sd by simp
  moreover have "written ((splice pg 0 ?s, m) # pages) = ?s @ written pages"
    by (simp only: written_Cons pgs)
  ultimately show ?thesis
    using s1 sum len tk by (simp add: run_image_def)
qed

lemma encode_run_runs:
  assumes ok: "enc_ready r xid"
    and caps: "\<forall>(pg, m) \<in> set ps. 0 < m \<and> m * JRNL_DBLK_SIZE < 2 ^ 32 \<and> m * JRNL_DBLK_SIZE \<le> length pg"
    and enough: "TXN_HDR_SIZE + xid_size r + REC_TAIL_SIZE \<le> (k + sum_list (map snd ps)) * JRNL_DBLK_SIZE"
  shows "\<exists>pages. encode_run r k ps = Inr pages \<and> run_image r xid k pages"
  using caps enough
proof (induction ps arbitrary: k)
  case Nil
  let ?rs = "TXN_HDR_SIZE + xid_size r + REC_TAIL_SIZE"
  from Nil.prems have "?rs \<le> k * JRNL_DBLK_SIZE" by simp
  moreover from this have "dblks_up ?rs \<le> k" by (simp add: dblks_up_le_iff)
  ultimately show ?case
    using length_enc_image [OF ok] by (simp add: run_image_def)
next
  case (Cons a ps)
  obtain pg m where a: "a = (pg, m)" by (cases a)
  let ?rs = "TXN_HDR_SIZE + xid_size r + REC_TAIL_SIZE" and ?D = JRNL_DBLK_SIZE
  have m: "0 < m" "m * ?D < 2 ^ 32" "m * ?D \<le> length pg"
    using Cons.prems(1) a by auto
  consider (finished) "?rs \<le> k * ?D" | (last) "k * ?D < ?rs" "?rs - k * ?D \<le> m * ?D"
    | (more) "m * ?D < ?rs - k * ?D"
    by linarith
  then show ?case
  proof cases
    case finished
    then have "dblks_up ?rs \<le> k" and "rec_size_dblks r = dblks_up ?rs"
      using ok by (simp_all add: dblks_up_le_iff rec_size_dblks_def enc_ready_size_dblks)
    then show ?thesis
      using finished a length_enc_image [OF ok] by (simp add: run_image_def)
  next
    case last
    then show ?thesis
      using encode_run_last [OF ok m last] a by simp
  next
    case more
    have "?rs \<le> (k + m + sum_list (map snd ps)) * ?D"
      using Cons.prems(2) a by (simp add: algebra_simps)
    moreover have "\<forall>(pg, m) \<in> set ps. 0 < m \<and> m * ?D < 2 ^ 32 \<and> m * ?D \<le> length pg"
      using Cons.prems(1) by simp
    ultimately obtain pages where "encode_run r (k + m) ps = Inr pages" "run_image r xid (k + m) pages"
      using Cons.IH by blast
    then show ?thesis
      using encode_run_more [OF ok m more] a by blast
  qed
qed

text \<open>
  C1. Encoding is slicing: every call of \<open>encode\<close> on a record ready to be encoded,
  at a dblk offset inside the record and with a page of \<open>m > 0\<close> dblks, writes
  to the start of the page exactly the bytes of the record's serialization (header,
  payload, tail) from that offset on, as many as fit in \<open>m\<close> dblks, leaves the rest
  of the page untouched, and returns the number of dblks those bytes occupy. No
  assertion fails and no copy leaves its buffers.
\<close>

theorem encode_slice:
  assumes ok: "enc_ready r xid" and m: "0 < m" and mb: "m * JRNL_DBLK_SIZE < 2 ^ 32"
    and dst: "m * JRNL_DBLK_SIZE \<le> length dst"
    and inside: "k * JRNL_DBLK_SIZE < TXN_HDR_SIZE + xid_size r + REC_TAIL_SIZE"
  shows "encode r (Some dst) k m =
         Inr (splice dst 0 (take (m * JRNL_DBLK_SIZE) (drop (k * JRNL_DBLK_SIZE) (enc_image r xid))),
              dblks_up (min (m * JRNL_DBLK_SIZE) (TXN_HDR_SIZE + xid_size r + REC_TAIL_SIZE - k * JRNL_DBLK_SIZE)))"
  using encode_call [OF ok m mb dst inside] .

theorem encode_slice_witness:
  "let r = txn_rec_new QLS_TXC_MAGIC 5 (Some (replicate 200 7)) 200;
       x = replicate 200 (7::byte); pg = replicate 128 (0::byte)
   in enc_ready r x \<and> 0 < (1::nat) \<and> 1 * JRNL_DBLK_SIZE < 2 ^ 32 \<and>
      1 * JRNL_DBLK_SIZE \<le> length pg \<and>
      1 * JRNL_DBLK_SIZE < TXN_HDR_SIZE + xid_size r + REC_TAIL_SIZE \<and>
      encode r (Some pg) 1 1 =
        Inr (splice pg 0 (take (1 * JRNL_DBLK_SIZE) (drop (1 * JRNL_DBLK_SIZE) (enc_image r x))),
             dblks_up (min (1 * JRNL_DBLK_SIZE)
               (TXN_HDR_SIZE + xid_size r + REC_TAIL_SIZE - 1 * JRNL_DBLK_SIZE)))"
proof -
  let ?r = "txn_rec_new QLS_TXC_MAGIC 5 (Some (replicate 200 7)) 200"
    and ?x = "replicate 200 (7::byte)" and ?pg = "replicate 128 (0::byte)"
  have ok: "enc_ready ?r ?x"
    by (rule txn_rec_new_enc_ready) (simp_all add: TXN_HDR_SIZE_def REC_TAIL_SIZE_def)
  have sz: "1 * JRNL_DBLK_SIZE < 2 ^ 32" "1 * JRNL_DBLK_SIZE \<le> length ?pg"
    "1 * JRNL_DBLK_SIZE < TXN_HDR_SIZE + xid_size ?r + REC_TAIL_SIZE"
    by (simp_all add: JRNL_DBLK_SIZE_def TXN_HDR_SIZE_def REC_TAIL_SIZE_def)
  show ?thesis
    using ok sz encode_slice [OF ok _ sz(1) sz(2) sz(3)] by (simp add: Let_def)
qed

text \<open>
  C5. Split encoding round trip and offset accounting: driving \<open>encode\<close> from
  offset \<open>k\<close> over pages whose capacities add up to at least the rest of the record,
  the dblk counts the calls return add up to \<open>size_dblks(rec_size()) - k\<close>, the
  dblks written fill exactly that many dblks, and they begin with the record's
  serialization from byte \<open>k * JRNL_DBLK_SIZE\<close> on, with no gap and no overlap,
  wherever the page boundaries fall.
\<close>

theorem encode_run_image:
  assumes ok: "enc_ready r xid"
    and caps: "\<forall>(pg, m) \<in> set ps. 0 < m \<and> m * JRNL_DBLK_SIZE < 2 ^ 32 \<and> m * JRNL_DBLK_SIZE \<le> length pg"
    and enough: "TXN_HDR_SIZE + xid_size r + REC_TAIL_SIZE \<le> (k + sum_list (map snd ps)) * JRNL_DBLK_SIZE"
  shows "\<exists>pages. encode_run r k ps = Inr pages \<and>
           sum_list (map snd pages) = dblks_up (TXN_HDR_SIZE + xid_size r + REC_TAIL_SIZE) - k \<and>
           length (written pages) = (dblks_up (TXN_HDR_SIZE + xid_size r + REC_TAIL_SIZE) - k) * JRNL_DBLK_SIZE \<and>
           take (TXN_HDR_SIZE + xid_size r + REC_TAIL_SIZE - k * JRNL_DBLK_SIZE) (written pages) =
             drop (k * JRNL_DBLK_SIZE) (enc_image r xid)"
  using encode_run_runs [OF ok caps enough] by (simp add: run_image_def)

theorem encode_run_image_witness:
  "let r = txn_rec_new QLS_TXA_MAGIC 9 (Some (replicate 200 3)) 200;
       x = replicate 200 (3::byte); ps = [(replicate 128 0, 1), (replicate 256 0, 2)]
   in enc_ready r x \<and>
      (\<forall>(pg, m) \<in> set ps. 0 < m \<and> m * JRNL_DBLK_SIZE < 2 ^ 32 \<and> m * JRNL_DBLK_SIZE \<le> length pg) \<and>
      TXN_HDR_SIZE + xid_size r + REC_TAIL_SIZE \<le> (0 + sum_list (map snd ps)) * JRNL_DBLK_SIZE \<and>
      (\<exists>pages. encode_run r 0 ps = Inr pages \<and>
         sum_list (map snd pages) = dblks_up (TXN_HDR_SIZE + xid_size r + REC_TAIL_SIZE) - 0 \<and>
         length (written pages) = (dblks_up (TXN_HDR_SIZE + xid_size r + REC_TAIL_SIZE) - 0) * JRNL_DBLK_SIZE \<and>
         take (TXN_HDR_SIZE + xid_size r + REC_TAIL_SIZE - 0 * JRNL_DBLK_SIZE) (written pages) =
           drop (0 * JRNL_DBLK_SIZE) (enc_image r x))"
proof -
  let ?r = "txn_rec_new QLS_TXA_MAGIC 9 (Some (replicate 200 3)) 200"
    and ?x = "replicate 200 (3::byte)" and ?ps = "[(replicate 128 (0::byte), 1::nat), (replicate 256 0, 2)]"
  have ok: "enc_ready ?r ?x"
    by (rule txn_rec_new_enc_ready) (simp_all add: TXN_HDR_SIZE_def REC_TAIL_SIZE_def)
  have caps: "\<forall>(pg, m) \<in> set ?ps. 0 < m \<and> m * JRNL_DBLK_SIZE < 2 ^ 32 \<and> m * JRNL_DBLK_SIZE \<le> length pg"
    by (simp add: JRNL_DBLK_SIZE_def)
  have en: "TXN_HDR_SIZE + xid_size ?r + REC_TAIL_SIZE \<le> (0 + sum_list (map snd ?ps)) * JRNL_DBLK_SIZE"
    by (simp add: JRNL_DBLK_SIZE_def TXN_HDR_SIZE_def REC_TAIL_SIZE_def)
  show ?thesis
    using ok caps en encode_run_image [OF ok caps en] by (simp only: Let_def)
qed

subsection \<open>Reuse by \<open>reset\<close>\<close>

text \<open>
  C13. What a reused object writes: after \<open>reset(magic, rid, xidp, xidlen)\<close>, the
  bytes the encoder writes (header, xid and tail) are those a freshly constructed
  object with the same fields would write exactly when the old header carried the
  journal version and no user flags and the old tail checksum was 0; \<open>reset\<close> assigns
  magic, record id and xid size but keeps \<open>_version\<close>, \<open>_uflag\<close> and the tail's
  \<open>_checksum\<close> from the object's previous use.
\<close>

theorem reset_encodes_as_new:
  assumes T: "length (txn_tail t) = REC_TAIL_SIZE"
  shows "enc_image (reset t m r x xl) xid = enc_image (txn_rec_new m r x xl) xid \<longleftrightarrow>
         version (rhdr (txn_hdr t)) = QLS_JRNL_VERSION \<and> uflag (rhdr (txn_hdr t)) = 0 \<and>
         tail_checksum (txn_tail t) = 0"
  using reset_fields [OF T]
  by (simp add: enc_image_def txn_rec_new_def txn_hdr_init_def rec_tail_copy_def txn_hdr_bytes_def
      rec_hdr_bytes_def rec_tail_init_def xid_size_def word_bytes_eq_iff Let_def)

theorem reset_encodes_as_new_witness:
  "enc_image (reset (txn_rec_new QLS_TXA_MAGIC 0 None 0\<lparr>txn_hdr := txn_hdr_init QLS_TXA_MAGIC QLS_JRNL_VERSION 1 0 0\<rparr>)
                QLS_TXC_MAGIC 7 None 0) [] \<noteq>
   enc_image (txn_rec_new QLS_TXC_MAGIC 7 None 0) []"
proof -
  let ?t = "txn_rec_new QLS_TXA_MAGIC 0 None 0\<lparr>txn_hdr := txn_hdr_init QLS_TXA_MAGIC QLS_JRNL_VERSION 1 0 0\<rparr>"
  have "length (txn_tail ?t) = REC_TAIL_SIZE" "uflag (rhdr (txn_hdr ?t)) \<noteq> 0"
    by (simp_all add: txn_rec_new_def txn_hdr_init_def rec_tail_copy_def)
  then show ?thesis
    using reset_encodes_as_new [of ?t QLS_TXC_MAGIC 7 None 0 "[]"] by simp
qed

end
