(* ===== verification/Decode.thy ===== *)
theory Decode
  imports Encode
begin

text \<open>
  \<open>txn_rec::decode\<close> (\<open>txn_rec.cpp\<close>, lines 198--307): reads the part of a record
  that lies in the page at \<open>rptr\<close>, starting \<open>rec_offs_dblks\<close> dblks into the record,
  at most \<open>max_size_dblks\<close> dblks, into the record object, and returns the number of
  dblks consumed. On the first call it takes the header \<open>h\<close> the caller has already
  read, reads \<open>xidsize\<close> from the page, checks the header and allocates the payload
  buffer; on later calls it classifies the offset against the header+payload and
  header+payload+tail boundaries. The allocator is a parameter (\<open>malloc\<close> is outside
  the program): \<open>None\<close> is an allocation failure, which \<open>MALLOC_CHK\<close> turns into
  \<open>JERR__MALLOC\<close>. A thrown check discards the object, as the exception unwinds
  past the caller.
\<close>

subsection \<open>Copies into the record object\<close>

definition copy_buff :: "txn_rec \<Rightarrow> nat \<Rightarrow> byte list \<Rightarrow> nat \<Rightarrow> nat \<Rightarrow> txn_rec res" where
  "copy_buff r doff src soff n =
     (case buff r of None \<Rightarrow> Inl Null_pointer
      | Some b \<Rightarrow> bindE (memcpy b doff src soff n) (\<lambda>b'. Inr (r\<lparr>buff := Some b'\<rparr>)))"

definition copy_tail :: "txn_rec \<Rightarrow> nat \<Rightarrow> byte list \<Rightarrow> nat \<Rightarrow> nat \<Rightarrow> txn_rec res" where
  "copy_tail r doff src soff n =
     bindE (memcpy (txn_tail r) doff src soff n) (\<lambda>t. Inr (r\<lparr>txn_tail := t\<rparr>))"

definition check_tail :: "txn_rec \<Rightarrow> txn_rec res" where
  "check_tail r = bindE (chk_tail (txn_hdr r) (txn_tail r)) (\<lambda>_. Inr r)"

subsection \<open>Continuation of a record on a new page (lines 205--256)\<close>

definition decode_cont :: "txn_rec \<Rightarrow> byte list \<Rightarrow> nat \<Rightarrow> nat \<Rightarrow> (txn_rec \<times> nat) res" where
  "decode_cont r rptr rec_offs_dblks max_size_dblks =
     (let xs = xid_size r;
          hdr_xid_dblks = size_dblks (trunc 64 (TXN_HDR_SIZE + xs));
          hdr_xid_tail_dblks = size_dblks (trunc 64 (TXN_HDR_SIZE + xs + REC_TAIL_SIZE));
          rec_offs = trunc 32 (rec_offs_dblks * JRNL_DBLK_SIZE)
      in if usub 32 hdr_xid_tail_dblks rec_offs_dblks \<le> max_size_dblks then
           (if usub 64 rec_offs TXN_HDR_SIZE < xs then
              (let xid_offs = usub 64 rec_offs TXN_HDR_SIZE;
                   xid_rem = usub 64 xs xid_offs
               in bindE (copy_buff r xid_offs rptr 0 xid_rem) (\<lambda>r.
                  bindE (copy_tail r 0 rptr xid_rem REC_TAIL_SIZE) (\<lambda>r.
                  bindE (check_tail r) (\<lambda>r. Inr (r, xid_rem + REC_TAIL_SIZE)))))
            else
              (let tail_offs = usub 64 (usub 64 rec_offs TXN_HDR_SIZE) xs;
                   tail_rem = usub 64 REC_TAIL_SIZE tail_offs
               in bindE (copy_tail r tail_offs rptr 0 tail_rem) (\<lambda>r.
                  bindE (check_tail r) (\<lambda>r. Inr (r, tail_rem)))))
         else if usub 32 hdr_xid_dblks rec_offs_dblks \<le> max_size_dblks then
           (let xid_offs = usub 64 rec_offs TXN_HDR_SIZE;
                xid_rem = usub 64 xs xid_offs
            in bindE (copy_buff r xid_offs rptr 0 xid_rem) (\<lambda>r.
               let tail_rem = usub 64 (trunc 32 (max_size_dblks * JRNL_DBLK_SIZE)) xid_rem
               in if tail_rem \<noteq> 0 then
                    bindE (copy_tail r 0 rptr xid_rem tail_rem) (\<lambda>r. Inr (r, xid_rem + tail_rem))
                  else Inr (r, xid_rem)))
         else
           (let xid_cp_size = trunc 32 (max_size_dblks * JRNL_DBLK_SIZE)
            in bindE (copy_buff r (usub 64 rec_offs TXN_HDR_SIZE) rptr 0 xid_cp_size)
                 (\<lambda>r. Inr (r, xid_cp_size))))"

subsection \<open>Start of a record (lines 257--305)\<close>

definition decode_first ::
  "txn_rec \<Rightarrow> (nat \<Rightarrow> byte list option) \<Rightarrow> rec_hdr_t \<Rightarrow> byte list \<Rightarrow> nat \<Rightarrow> (txn_rec \<times> nat) res" where
  "decode_first r malloc h rptr max_size_dblks =
     bindE (mem_read rptr REC_HDR_SIZE 8) (\<lambda>xb.
     let r = r\<lparr>txn_hdr := \<lparr>rhdr = h, xidsize = bytes_word xb\<rparr>\<rparr>;
         rd = TXN_HDR_SIZE
     in bindE (chk_hdr (txn_hdr r)) (\<lambda>_.
        case malloc (xid_size r) of None \<Rightarrow> Inl JERR__MALLOC | Some b \<Rightarrow>
        let r = r\<lparr>buff := Some b\<rparr>;
            xs = xid_size r;
            hdr_xid_dblks = size_dblks (trunc 64 (TXN_HDR_SIZE + xs));
            hdr_xid_tail_dblks = size_dblks (trunc 64 (TXN_HDR_SIZE + xs + REC_TAIL_SIZE))
        in if hdr_xid_tail_dblks \<le> max_size_dblks then
             bindE (copy_buff r 0 rptr rd xs) (\<lambda>r.
             bindE (copy_tail r 0 rptr (rd + xs) REC_TAIL_SIZE) (\<lambda>r.
             bindE (check_tail r) (\<lambda>r. Inr (r, rd + xs + REC_TAIL_SIZE))))
           else if hdr_xid_dblks \<le> max_size_dblks then
             bindE (copy_buff r 0 rptr rd xs) (\<lambda>r.
             let rd = rd + xs;
                 tail_rem = usub 64 (trunc 32 (max_size_dblks * JRNL_DBLK_SIZE)) rd
             in if tail_rem \<noteq> 0 then
                  bindE (copy_tail r 0 rptr rd tail_rem) (\<lambda>r. Inr (r, rd + tail_rem))
                else Inr (r, rd))
           else
             (let xid_cp_size = usub 64 (trunc 32 (max_size_dblks * JRNL_DBLK_SIZE)) rd
              in bindE (copy_buff r 0 rptr rd xid_cp_size) (\<lambda>r. Inr (r, rd + xid_cp_size)))))"

subsection \<open>The entry point\<close>

definition decode ::
  "txn_rec \<Rightarrow> (nat \<Rightarrow> byte list option) \<Rightarrow> rec_hdr_t \<Rightarrow> byte list option \<Rightarrow> nat \<Rightarrow> nat \<Rightarrow>
   (txn_rec \<times> nat) res" where
  "decode r malloc h rptr rec_offs_dblks max_size_dblks =
     (case rptr of None \<Rightarrow> Inl Assert_failed | Some page \<Rightarrow>
      if max_size_dblks = 0 then Inl Assert_failed else
      bindE (if rec_offs_dblks \<noteq> 0 then decode_cont r page rec_offs_dblks max_size_dblks
             else decode_first r malloc h page max_size_dblks)
        (\<lambda>(r, rd_cnt). Inr (r, size_dblks rd_cnt)))"

subsection \<open>The record image a decoded object holds\<close>

text \<open>
  \<open>dec_image r\<close> is the byte image the decoder has assembled so far: the header as
  laid out in the page, the payload buffer and the tail object. \<open>with_image r img\<close>
  reads the payload and the tail back out of an image. \<open>dec_ready r\<close> is the state
  after the first call: a buffer of \<open>xidsize\<close> bytes and a whole tail object.
\<close>

definition dec_image :: "txn_rec \<Rightarrow> byte list" where
  "dec_image r = txn_hdr_bytes (txn_hdr r) @ (case buff r of None \<Rightarrow> [] | Some b \<Rightarrow> b) @ txn_tail r"

definition dec_ready :: "txn_rec \<Rightarrow> bool" where
  "dec_ready r \<longleftrightarrow>
     (case buff r of None \<Rightarrow> False | Some b \<Rightarrow> length b = xid_size r) \<and>
     length (txn_tail r) = REC_TAIL_SIZE \<and> TXN_HDR_SIZE + xid_size r + REC_TAIL_SIZE < 2 ^ 32"

definition with_image :: "txn_rec \<Rightarrow> byte list \<Rightarrow> txn_rec" where
  "with_image r img =
     r\<lparr>buff := Some (take (xid_size r) (drop TXN_HDR_SIZE img)),
       txn_tail := drop (TXN_HDR_SIZE + xid_size r) img\<rparr>"

subsection \<open>Continuation calls refine slicing the image\<close>

lemma copy_buff_ok:
  "buff r = Some b \<Longrightarrow> soff + n \<le> length src \<Longrightarrow> doff + n \<le> length b \<Longrightarrow>
   ys = take n (drop soff src) \<Longrightarrow>
   copy_buff r doff src soff n = Inr (r\<lparr>buff := Some (splice b doff ys)\<rparr>)"
  by (simp add: copy_buff_def memcpy_in_bounds)

lemma copy_tail_ok:
  "txn_tail r = t \<Longrightarrow> soff + n \<le> length src \<Longrightarrow> doff + n \<le> length t \<Longrightarrow>
   ys = take n (drop soff src) \<Longrightarrow>
   copy_tail r doff src soff n = Inr (r\<lparr>txn_tail := splice t doff ys\<rparr>)"
  by (simp add: copy_tail_def memcpy_in_bounds)

lemma with_image_splice_buff:
  assumes "buff r = Some b" and "length b = xid_size r" and "TXN_HDR_SIZE \<le> p"
    and "p - TXN_HDR_SIZE + length s \<le> xid_size r"
  shows "with_image r (splice (dec_image r) p s) =
         r\<lparr>buff := Some (splice b (p - TXN_HDR_SIZE) s)\<rparr>"
proof -
  have "splice (dec_image r) p s = txn_hdr_bytes (txn_hdr r) @ splice b (p - TXN_HDR_SIZE) s @ txn_tail r"
    using assms by (simp add: dec_image_def splice_append_right splice_append_left)
  moreover have "length (splice b (p - TXN_HDR_SIZE) s) = xid_size r"
    using assms by simp
  ultimately show ?thesis
    using assms by (simp add: with_image_def)
qed

lemma with_image_splice_tail:
  assumes "buff r = Some b" and "length b = xid_size r" and "TXN_HDR_SIZE + xid_size r \<le> p"
  shows "with_image r (splice (dec_image r) p s) =
         r\<lparr>txn_tail := splice (txn_tail r) (p - TXN_HDR_SIZE - xid_size r) s\<rparr>"
proof -
  have "splice (dec_image r) p s =
        txn_hdr_bytes (txn_hdr r) @ b @ splice (txn_tail r) (p - TXN_HDR_SIZE - xid_size r) s"
    using assms by (simp add: dec_image_def splice_append_right)
  then show ?thesis
    using assms by (simp add: with_image_def)
qed

lemma with_image_splice_across:
  assumes "buff r = Some b" and "length b = xid_size r" and "TXN_HDR_SIZE \<le> p"
    and "p \<le> TXN_HDR_SIZE + xid_size r" and "TXN_HDR_SIZE + xid_size r \<le> p + length s"
  shows "with_image r (splice (dec_image r) p s) =
         r\<lparr>buff := Some (splice b (p - TXN_HDR_SIZE) (take (TXN_HDR_SIZE + xid_size r - p) s)),
           txn_tail := splice (txn_tail r) 0 (drop (TXN_HDR_SIZE + xid_size r - p) s)\<rparr>"
proof -
  let ?q = "p - TXN_HDR_SIZE" and ?c = "TXN_HDR_SIZE + xid_size r - p"
  have c: "length b - ?q = ?c" using assms by simp
  have "splice (dec_image r) p s =
        txn_hdr_bytes (txn_hdr r) @ splice (b @ txn_tail r) ?q s"
    using assms by (simp add: dec_image_def splice_append_right)
  also have "splice (b @ txn_tail r) ?q s =
      splice b ?q (take ?c s) @ splice (txn_tail r) 0 (drop ?c s)"
    using splice_across [of ?q b s "txn_tail r"] assms c by simp
  finally have img: "splice (dec_image r) p s =
      txn_hdr_bytes (txn_hdr r) @ splice b ?q (take ?c s) @ splice (txn_tail r) 0 (drop ?c s)" .
  have "length (splice b ?q (take ?c s)) = xid_size r"
    using assms by simp
  then show ?thesis
    using img by (simp add: with_image_def)
qed

lemma dec_ready_buff:
  "dec_ready r \<Longrightarrow> \<exists>b. buff r = Some b \<and> length b = xid_size r"
  by (auto simp: dec_ready_def split: option.splits)

lemma decode_cont_sizes:
  assumes "dec_ready r"
  shows "size_dblks (trunc 64 (TXN_HDR_SIZE + xid_size r)) = dblks_up (TXN_HDR_SIZE + xid_size r)"
    and "size_dblks (trunc 64 (TXN_HDR_SIZE + xid_size r + REC_TAIL_SIZE)) =
         dblks_up (TXN_HDR_SIZE + xid_size r + REC_TAIL_SIZE)"
proof -
  have b: "TXN_HDR_SIZE + xid_size r + REC_TAIL_SIZE < 2 ^ 32"
    using assms by (simp add: dec_ready_def)
  moreover have "(2::nat) ^ 32 < 2 ^ 64" by simp
  ultimately show "size_dblks (trunc 64 (TXN_HDR_SIZE + xid_size r)) = dblks_up (TXN_HDR_SIZE + xid_size r)"
    and "size_dblks (trunc 64 (TXN_HDR_SIZE + xid_size r + REC_TAIL_SIZE)) =
         dblks_up (TXN_HDR_SIZE + xid_size r + REC_TAIL_SIZE)"
    by (simp_all add: trunc_id size_dblks_exact)
qed

lemma decode_cont_complete:
  assumes dr: "dec_ready r" and k: "0 < k"
    and inside: "k * JRNL_DBLK_SIZE < TXN_HDR_SIZE + xid_size r + REC_TAIL_SIZE"
    and fits: "TXN_HDR_SIZE + xid_size r + REC_TAIL_SIZE \<le> (k + m) * JRNL_DBLK_SIZE"
    and pg: "TXN_HDR_SIZE + xid_size r + REC_TAIL_SIZE - k * JRNL_DBLK_SIZE \<le> length page"
  shows "decode_cont r page k m =
         (let r' = with_image r (splice (dec_image r) (k * JRNL_DBLK_SIZE)
                     (take (TXN_HDR_SIZE + xid_size r + REC_TAIL_SIZE - k * JRNL_DBLK_SIZE) page))
          in bindE (check_tail r') (\<lambda>r'. Inr (r', TXN_HDR_SIZE + xid_size r + REC_TAIL_SIZE - k * JRNL_DBLK_SIZE)))"
proof -
  let ?X = "xid_size r" and ?H = TXN_HDR_SIZE and ?T = REC_TAIL_SIZE and ?D = JRNL_DBLK_SIZE
  let ?rs = "?H + ?X + ?T" and ?p = "k * ?D"
  obtain b where b: "buff r = Some b" "length b = ?X"
    using dec_ready_buff [OF dr] by blast
  have T: "length (txn_tail r) = ?T" and bnd: "?rs < 2 ^ 32"
    using dr by (simp_all add: dec_ready_def)
  have hp: "?H \<le> ?p"
    using k hdr_le_dblk dblk_le_mult [of k] by linarith
  have ro: "trunc 32 ?p = ?p"
    using inside bnd by (intro trunc_id) linarith
  have kin: "k < dblks_up ?rs"
    using inside by (simp add: dblks_up_less_iff)
  have db: "dblks_up ?rs < 2 ^ 32"
    using dblks_up_le_self [of ?rs] bnd by linarith
  have A: "usub 32 (dblks_up ?rs) k \<le> m"
    using kin db fits by (simp add: usub_exact dblks_up_le_iff [symmetric])
  have ph: "usub 64 ?p ?H = ?p - ?H"
    using hp inside bnd by (intro usub64_small) linarith+
  show ?thesis
  proof (cases "?p - ?H < ?X")
    case True
    let ?q = "?p - ?H" let ?a = "?X - ?q"
    have xr: "usub 64 ?X ?q = ?a"
      using True bnd by (intro usub64_small) linarith+
    have a1: "0 + ?a \<le> length page" and a2: "?q + ?a \<le> length b"
      and a3: "?a + ?T \<le> length page"
      using b True pg hp by arith+
    have 1: "copy_buff r ?q page 0 ?a = Inr (r\<lparr>buff := Some (splice b ?q (take ?a page))\<rparr>)"
      using b a1 a2 by (intro copy_buff_ok) simp_all
    have 2: "copy_tail (r\<lparr>buff := Some (splice b ?q (take ?a page))\<rparr>) 0 page ?a ?T =
             Inr (r\<lparr>buff := Some (splice b ?q (take ?a page)),
                    txn_tail := splice (txn_tail r) 0 (take ?T (drop ?a page))\<rparr>)"
      using T a3 by (intro copy_tail_ok) simp_all
    have img: "with_image r (splice (dec_image r) ?p (take (?rs - ?p) page)) =
               r\<lparr>buff := Some (splice b ?q (take ?a page)),
                 txn_tail := splice (txn_tail r) 0 (take ?T (drop ?a page))\<rparr>"
    proof -
      have "with_image r (splice (dec_image r) ?p (take (?rs - ?p) page)) =
            r\<lparr>buff := Some (splice b ?q (take (?H + ?X - ?p) (take (?rs - ?p) page))),
              txn_tail := splice (txn_tail r) 0 (drop (?H + ?X - ?p) (take (?rs - ?p) page))\<rparr>"
      proof (rule with_image_splice_across [OF b hp])
        show "?p \<le> ?H + ?X" using True hp by arith
        show "?H + ?X \<le> ?p + length (take (?rs - ?p) page)" using pg by simp
      qed
      moreover have c: "?H + ?X - ?p = ?a" and c2: "?rs - ?p - ?a = ?T" and c3: "?a \<le> ?rs - ?p"
        using True hp by arith+
      moreover have "take ?a (take (?rs - ?p) page) = take ?a page"
        using c3 by (simp add: min_absorb1)
      moreover have "drop ?a (take (?rs - ?p) page) = take ?T (drop ?a page)"
        by (simp only: drop_take c2)
      ultimately show ?thesis
        by (simp only:)
    qed
    have rd: "?a + ?T = ?rs - ?p"
      using True hp by arith
    have unf: "decode_cont r page k m =
        bindE (copy_buff r ?q page 0 ?a) (\<lambda>r. bindE (copy_tail r 0 page ?a ?T) (\<lambda>r.
        bindE (check_tail r) (\<lambda>r. Inr (r, ?a + ?T))))"
      using A ph True xr ro by (simp add: decode_cont_def decode_cont_sizes [OF dr] Let_def)
    show ?thesis
      by (simp only: unf 1 2 bindE_Inr img rd Let_def)
  next
    case False
    let ?t = "?p - ?H - ?X"
    have tT: "?t < ?T"
      using inside hp tail_pos by arith
    have pb: "?p - ?H < 2 ^ 32"
      using inside bnd by linarith
    have tr: "usub 64 (usub 64 ?p ?H) ?X = ?t"
      using ph False pb usub64_small [of ?X "?p - ?H"] by simp
    have tr2: "usub 64 ?T ?t = ?rs - ?p"
    proof -
      have "usub 64 ?T ?t = ?T - ?t"
        using tT by (intro usub64_small) (simp_all add: REC_TAIL_SIZE_def)
      also have "\<dots> = ?rs - ?p"
        using False hp by arith
      finally show ?thesis .
    qed
    have rd: "?T - ?t = ?rs - ?p"
      using False hp by arith
    have a1: "0 + (?rs - ?p) \<le> length page" and a2: "?t + (?rs - ?p) \<le> length (txn_tail r)"
      using T tT pg False hp by arith+
    have 1: "copy_tail r ?t page 0 (?rs - ?p) =
             Inr (r\<lparr>txn_tail := splice (txn_tail r) ?t (take (?rs - ?p) page)\<rparr>)"
      using a1 a2 by (intro copy_tail_ok) simp_all
    have img: "with_image r (splice (dec_image r) ?p (take (?rs - ?p) page)) =
               r\<lparr>txn_tail := splice (txn_tail r) ?t (take (?rs - ?p) page)\<rparr>"
      using with_image_splice_tail [OF b, of ?p "take (?rs - ?p) page"] False hp by simp
    have unf: "decode_cont r page k m =
        bindE (copy_tail r ?t page 0 (?rs - ?p)) (\<lambda>r. bindE (check_tail r) (\<lambda>r. Inr (r, ?rs - ?p)))"
      using A ph False tr tr2 ro by (simp add: decode_cont_def decode_cont_sizes [OF dr] Let_def)
    show ?thesis
      by (simp only: unf 1 bindE_Inr img Let_def)
  qed
qed

lemma decode_cont_partial:
  assumes dr: "dec_ready r" and k: "0 < k" and m: "0 < m"
    and split: "(k + m) * JRNL_DBLK_SIZE < TXN_HDR_SIZE + xid_size r + REC_TAIL_SIZE"
    and pg: "m * JRNL_DBLK_SIZE \<le> length page"
  shows "decode_cont r page k m =
         Inr (with_image r (splice (dec_image r) (k * JRNL_DBLK_SIZE) (take (m * JRNL_DBLK_SIZE) page)),
              m * JRNL_DBLK_SIZE)"
proof -
  let ?X = "xid_size r" and ?H = TXN_HDR_SIZE and ?T = REC_TAIL_SIZE and ?D = JRNL_DBLK_SIZE
  let ?rs = "?H + ?X + ?T" and ?p = "k * ?D" and ?md = "m * ?D"
  obtain b where b: "buff r = Some b" "length b = ?X"
    using dec_ready_buff [OF dr] by blast
  have T: "length (txn_tail r) = ?T" and bnd: "?rs < 2 ^ 32"
    using dr by (simp_all add: dec_ready_def)
  have hp: "?H \<le> ?p"
    using k hdr_le_dblk dblk_le_mult [of k] by linarith
  have sp: "?p + ?md < ?rs"
    using split by (simp add: add_mult_distrib)
  have Tmd: "?T < ?md"
    using tail_lt_dblk dblk_le_mult [OF m] by linarith
  have px: "?p < ?H + ?X"
    using sp Tmd by linarith
  have ro: "trunc 32 ?p = ?p" and mdb: "trunc 32 ?md = ?md"
    using sp bnd by (intro trunc_id, linarith)+
  have kin: "k + m < dblks_up ?rs"
    using split by (simp add: dblks_up_less_iff)
  have db: "dblks_up ?rs < 2 ^ 32"
    using dblks_up_le_self [of ?rs] bnd by linarith
  have nA: "\<not> usub 32 (dblks_up ?rs) k \<le> m"
    using kin db by (simp add: usub_exact)
  have kx: "k < dblks_up (?H + ?X)"
    using px by (simp add: dblks_up_less_iff)
  have dbx: "dblks_up (?H + ?X) < 2 ^ 32"
    using dblks_up_le_self [of "?H + ?X"] bnd by linarith
  have hx: "usub 32 (dblks_up (?H + ?X)) k = dblks_up (?H + ?X) - k"
    using kx dbx by (simp add: usub_exact)
  have ph: "usub 64 ?p ?H = ?p - ?H"
    using hp sp bnd by (intro usub64_small) linarith+
  let ?q = "?p - ?H"
  show ?thesis
  proof (cases "?H + ?X \<le> ?p + ?md")
    case True
    let ?a = "?X - ?q"
    have "dblks_up (?H + ?X) \<le> k + m"
      using True by (simp add: dblks_up_le_iff add_mult_distrib)
    then have B: "usub 32 (dblks_up (?H + ?X)) k \<le> m"
      using hx by simp
    have xr: "usub 64 ?X ?q = ?a"
      using px bnd by (intro usub64_small) linarith+
    have am: "?a \<le> ?md" and aT: "?md - ?a < ?T"
      using True sp hp by arith+
    have tr: "usub 64 ?md ?a = ?md - ?a"
      using am sp bnd by (intro usub64_small) linarith+
    have 1: "copy_buff r ?q page 0 ?a = Inr (r\<lparr>buff := Some (splice b ?q (take ?a page))\<rparr>)"
      using b am pg px hp by (intro copy_buff_ok) simp_all
    have img: "with_image r (splice (dec_image r) ?p (take ?md page)) =
               r\<lparr>buff := Some (splice b ?q (take ?a page)),
                 txn_tail := splice (txn_tail r) 0 (take (?md - ?a) (drop ?a page))\<rparr>"
    proof -
      have "with_image r (splice (dec_image r) ?p (take ?md page)) =
            r\<lparr>buff := Some (splice b ?q (take (?H + ?X - ?p) (take ?md page))),
              txn_tail := splice (txn_tail r) 0 (drop (?H + ?X - ?p) (take ?md page))\<rparr>"
      proof (rule with_image_splice_across [OF b hp])
        show "?p \<le> ?H + ?X" using px by simp
        show "?H + ?X \<le> ?p + length (take ?md page)" using pg True by simp
      qed
      moreover have c: "?H + ?X - ?p = ?a"
        using hp by arith
      moreover have "take ?a (take ?md page) = take ?a page"
        using am by (simp add: min_absorb1)
      moreover have "drop ?a (take ?md page) = take (?md - ?a) (drop ?a page)"
        by (simp only: drop_take)
      ultimately show ?thesis
        by (simp only:)
    qed
    show ?thesis
    proof (cases "?md - ?a = 0")
      case z: True
      have unf: "decode_cont r page k m = bindE (copy_buff r ?q page 0 ?a) (\<lambda>r. Inr (r, ?a))"
        using nA B ph xr tr ro mdb z by (simp add: decode_cont_def decode_cont_sizes [OF dr] Let_def)
      have amd: "?a = ?md" using z am by simp
      have c1: "copy_buff r ?q page 0 ?md = Inr (r\<lparr>buff := Some (splice b ?q (take ?md page))\<rparr>)"
        using 1 amd by simp
      have unf': "decode_cont r page k m = bindE (copy_buff r ?q page 0 ?md) (\<lambda>r. Inr (r, ?md))"
        using unf amd by simp
      have img': "with_image r (splice (dec_image r) ?p (take ?md page)) =
                  r\<lparr>buff := Some (splice b ?q (take ?md page))\<rparr>"
        using img amd z by simp
      show ?thesis
        by (simp only: unf' c1 bindE_Inr img')
    next
      case nz: False
      have 2: "copy_tail (r\<lparr>buff := Some (splice b ?q (take ?a page))\<rparr>) 0 page ?a (?md - ?a) =
               Inr (r\<lparr>buff := Some (splice b ?q (take ?a page)),
                      txn_tail := splice (txn_tail r) 0 (take (?md - ?a) (drop ?a page))\<rparr>)"
        using T aT pg am by (intro copy_tail_ok) simp_all
      have unf: "decode_cont r page k m =
          bindE (copy_buff r ?q page 0 ?a) (\<lambda>r.
          bindE (copy_tail r 0 page ?a (?md - ?a)) (\<lambda>r. Inr (r, ?a + (?md - ?a))))"
        using nA B ph xr tr ro mdb nz by (simp add: decode_cont_def decode_cont_sizes [OF dr] Let_def)
      have "?a + (?md - ?a) = ?md" using am by simp
      then show ?thesis
        by (simp only: unf 1 2 bindE_Inr img)
    qed
  next
    case False
    have "\<not> dblks_up (?H + ?X) \<le> k + m"
      using False by (simp add: dblks_up_le_iff add_mult_distrib)
    then have nB: "\<not> usub 32 (dblks_up (?H + ?X)) k \<le> m"
      using hx by simp
    have 1: "copy_buff r ?q page 0 ?md = Inr (r\<lparr>buff := Some (splice b ?q (take ?md page))\<rparr>)"
      using b pg False hp by (intro copy_buff_ok) simp_all
    have img: "with_image r (splice (dec_image r) ?p (take ?md page)) =
               r\<lparr>buff := Some (splice b ?q (take ?md page))\<rparr>"
      using with_image_splice_buff [OF b hp, of "take ?md page"] False pg hp by simp
    have unf: "decode_cont r page k m = bindE (copy_buff r ?q page 0 ?md) (\<lambda>r. Inr (r, ?md))"
      using nA nB ph ro mdb by (simp add: decode_cont_def decode_cont_sizes [OF dr] Let_def)
    show ?thesis
      by (simp only: unf 1 bindE_Inr img)
  qed
qed

lemma decode_cont_call:
  assumes dr: "dec_ready r" and k: "0 < k" and m: "0 < m"
    and inside: "k * JRNL_DBLK_SIZE < TXN_HDR_SIZE + xid_size r + REC_TAIL_SIZE"
    and pg: "min (m * JRNL_DBLK_SIZE) (TXN_HDR_SIZE + xid_size r + REC_TAIL_SIZE - k * JRNL_DBLK_SIZE)
             \<le> length page"
  shows "decode r malloc h (Some page) k m =
         (let r' = with_image r (splice (dec_image r) (k * JRNL_DBLK_SIZE)
                     (take (min (m * JRNL_DBLK_SIZE)
                                (TXN_HDR_SIZE + xid_size r + REC_TAIL_SIZE - k * JRNL_DBLK_SIZE)) page))
          in if TXN_HDR_SIZE + xid_size r + REC_TAIL_SIZE \<le> (k + m) * JRNL_DBLK_SIZE
             then bindE (chk_tail (txn_hdr r') (txn_tail r'))
                    (\<lambda>_. Inr (r', dblks_up (TXN_HDR_SIZE + xid_size r + REC_TAIL_SIZE - k * JRNL_DBLK_SIZE)))
             else Inr (r', m))"
proof -
  let ?rs = "TXN_HDR_SIZE + xid_size r + REC_TAIL_SIZE" and ?p = "k * JRNL_DBLK_SIZE"
    and ?md = "m * JRNL_DBLK_SIZE"
  have bnd: "?rs < 2 ^ 32"
    using dr by (simp add: dec_ready_def)
  have dec: "decode r malloc h (Some page) k m =
             bindE (decode_cont r page k m) (\<lambda>(r, rd). Inr (r, size_dblks rd))"
    using k m by (simp add: decode_def)
  show ?thesis
  proof (cases "?rs \<le> (k + m) * JRNL_DBLK_SIZE")
    case True
    have mn: "min ?md (?rs - ?p) = ?rs - ?p"
      using True by (simp add: add_mult_distrib)
    have pg': "?rs - ?p \<le> length page"
      using pg mn by simp
    have sz: "size_dblks (?rs - ?p) = dblks_up (?rs - ?p)"
      using bnd by (intro size_dblks_exact) linarith
    show ?thesis
      using decode_cont_complete [OF dr k inside True pg'] True
      by (simp add: dec mn sz Let_def check_tail_def bindE_assoc)
  next
    case False
    then have sp: "(k + m) * JRNL_DBLK_SIZE < ?rs" by simp
    have mn: "min ?md (?rs - ?p) = ?md"
      using sp by (simp add: add_mult_distrib)
    have pg': "?md \<le> length page"
      using pg mn by simp
    have sz: "size_dblks ?md = m"
      using sp bnd by (simp add: size_dblks_exact add_mult_distrib)
    show ?thesis
      using decode_cont_partial [OF dr k m sp pg'] False
      by (simp add: dec mn sz Let_def)
  qed
qed

text \<open>
  C3. Split decoding, continuation calls: for a record object whose payload buffer
  and tail are in place, a \<open>decode\<close> call at dblk offset \<open>k > 0\<close> with room for
  \<open>m > 0\<close> dblks copies exactly the bytes of the page that belong to the record
  from byte \<open>k * JRNL_DBLK_SIZE\<close> on into the payload buffer and the tail, at their
  offsets in the record; when the record ends in this page it checks the tail
  against the header and returns the dblks up to the end of the record, and
  otherwise returns the whole \<open>m\<close> dblks. No assert fires and no copy leaves its
  buffers.
\<close>

theorem decode_cont_slice:
  assumes dr: "dec_ready r" and k: "0 < k" and m: "0 < m"
    and inside: "k * JRNL_DBLK_SIZE < TXN_HDR_SIZE + xid_size r + REC_TAIL_SIZE"
    and pg: "min (m * JRNL_DBLK_SIZE) (TXN_HDR_SIZE + xid_size r + REC_TAIL_SIZE - k * JRNL_DBLK_SIZE)
             \<le> length page"
  shows "decode r malloc h (Some page) k m =
         (let r' = with_image r (splice (dec_image r) (k * JRNL_DBLK_SIZE)
                     (take (min (m * JRNL_DBLK_SIZE)
                                (TXN_HDR_SIZE + xid_size r + REC_TAIL_SIZE - k * JRNL_DBLK_SIZE)) page))
          in if TXN_HDR_SIZE + xid_size r + REC_TAIL_SIZE \<le> (k + m) * JRNL_DBLK_SIZE
             then bindE (chk_tail (txn_hdr r') (txn_tail r'))
                    (\<lambda>_. Inr (r', dblks_up (TXN_HDR_SIZE + xid_size r + REC_TAIL_SIZE - k * JRNL_DBLK_SIZE)))
             else Inr (r', m))"
  using assms by (rule decode_cont_call)

theorem decode_cont_slice_witness:
  "let r = (txn_rec_new QLS_TXC_MAGIC 5 None 200)\<lparr>buff := Some (replicate 200 0)\<rparr>;
       pg = replicate 128 (0::byte)
   in dec_ready r \<and> 0 < (1::nat) \<and> 0 < (1::nat) \<and>
      1 * JRNL_DBLK_SIZE < TXN_HDR_SIZE + xid_size r + REC_TAIL_SIZE \<and>
      min (1 * JRNL_DBLK_SIZE) (TXN_HDR_SIZE + xid_size r + REC_TAIL_SIZE - 1 * JRNL_DBLK_SIZE)
        \<le> length pg \<and>
      decode r (\<lambda>_. None) (rhdr (txn_hdr r)) (Some pg) 1 1 =
        (let r' = with_image r (splice (dec_image r) (1 * JRNL_DBLK_SIZE)
                    (take (min (1 * JRNL_DBLK_SIZE)
                               (TXN_HDR_SIZE + xid_size r + REC_TAIL_SIZE - 1 * JRNL_DBLK_SIZE)) pg))
         in if TXN_HDR_SIZE + xid_size r + REC_TAIL_SIZE \<le> (1 + 1) * JRNL_DBLK_SIZE
            then bindE (chk_tail (txn_hdr r') (txn_tail r'))
                   (\<lambda>_. Inr (r', dblks_up (TXN_HDR_SIZE + xid_size r + REC_TAIL_SIZE - 1 * JRNL_DBLK_SIZE)))
            else Inr (r', 1))"
proof -
  let ?r = "(txn_rec_new QLS_TXC_MAGIC 5 None 200)\<lparr>buff := Some (replicate 200 0)\<rparr>"
    and ?pg = "replicate 128 (0::byte)"
  have xs: "xid_size ?r = 200"
    by (simp add: xid_size_def txn_rec_new_def txn_hdr_init_def)
  have tl: "length (txn_tail ?r) = REC_TAIL_SIZE"
    by (simp add: txn_rec_new_def rec_tail_copy_def Let_def)
  have ok: "dec_ready ?r"
    unfolding dec_ready_def using xs tl by (simp add: REC_TAIL_SIZE_def TXN_HDR_SIZE_def)
  have sz: "0 < (1::nat)" "1 * JRNL_DBLK_SIZE < TXN_HDR_SIZE + xid_size ?r + REC_TAIL_SIZE"
    "min (1 * JRNL_DBLK_SIZE) (TXN_HDR_SIZE + xid_size ?r + REC_TAIL_SIZE - 1 * JRNL_DBLK_SIZE)
       \<le> length ?pg"
    by (simp_all add: xs JRNL_DBLK_SIZE_def TXN_HDR_SIZE_def REC_TAIL_SIZE_def)
  note th = decode_cont_slice [OF ok sz(1) sz(1) sz(2) sz(3), of "\<lambda>_. None" "rhdr (txn_hdr ?r)"]
  show ?thesis
    unfolding Let_def using ok sz th unfolding Let_def by (intro conjI)
qed

subsection \<open>First calls\<close>

lemma decode_first_read:
  assumes "TXN_HDR_SIZE \<le> length page" and "bytes_word (take 8 (drop REC_HDR_SIZE page)) = xw"
  shows "mem_read page REC_HDR_SIZE 8 = Inr (take 8 (drop REC_HDR_SIZE page))"
    and "bytes_word (take 8 (drop REC_HDR_SIZE page)) = xw"
  using assms by (simp_all add: mem_read_def rec_hdr_lt_txn_hdr)

lemma decode_first_bad_hdr:
  assumes "TXN_HDR_SIZE \<le> length page" and "bytes_word (take 8 (drop REC_HDR_SIZE page)) = xw"
    and "chk_hdr \<lparr>rhdr = h, xidsize = xw\<rparr> = Inl e"
  shows "decode_first r malloc h page m = Inl e"
  using assms decode_first_read [OF assms(1,2)] by (simp add: decode_first_def)

lemma decode_first_no_mem:
  assumes "TXN_HDR_SIZE \<le> length page" and "bytes_word (take 8 (drop REC_HDR_SIZE page)) = xw"
    and "chk_hdr \<lparr>rhdr = h, xidsize = xw\<rparr> = Inr u" and "malloc (unat xw) = None"
  shows "decode_first r malloc h page m = Inl JERR__MALLOC"
  using assms decode_first_read [OF assms(1,2)] by (simp add: decode_first_def xid_size_def)

lemma decode_first_unfold:
  assumes "TXN_HDR_SIZE \<le> length page" and "bytes_word (take 8 (drop REC_HDR_SIZE page)) = xw"
    and "chk_hdr \<lparr>rhdr = h, xidsize = xw\<rparr> = Inr u" and "malloc (unat xw) = Some b"
    and r0: "r0 = r\<lparr>txn_hdr := \<lparr>rhdr = h, xidsize = xw\<rparr>, buff := Some b\<rparr>"
    and bnd: "TXN_HDR_SIZE + unat xw + REC_TAIL_SIZE < 2 ^ 32"
  shows "decode_first r malloc h page m =
     (let xs = unat xw; rd = TXN_HDR_SIZE
      in if dblks_up (TXN_HDR_SIZE + xs + REC_TAIL_SIZE) \<le> m then
           bindE (copy_buff r0 0 page rd xs) (\<lambda>r.
           bindE (copy_tail r 0 page (rd + xs) REC_TAIL_SIZE) (\<lambda>r.
           bindE (check_tail r) (\<lambda>r. Inr (r, rd + xs + REC_TAIL_SIZE))))
         else if dblks_up (TXN_HDR_SIZE + xs) \<le> m then
           bindE (copy_buff r0 0 page rd xs) (\<lambda>r.
           let rd = rd + xs;
               tail_rem = usub 64 (trunc 32 (m * JRNL_DBLK_SIZE)) rd
           in if tail_rem \<noteq> 0 then
                bindE (copy_tail r 0 page rd tail_rem) (\<lambda>r. Inr (r, rd + tail_rem))
              else Inr (r, rd))
         else
           (let xid_cp_size = usub 64 (trunc 32 (m * JRNL_DBLK_SIZE)) rd
            in bindE (copy_buff r0 0 page rd xid_cp_size) (\<lambda>r. Inr (r, rd + xid_cp_size))))"
proof -
  have "(2::nat) ^ 32 < 2 ^ 64" by simp
  then have s: "size_dblks (trunc 64 (TXN_HDR_SIZE + unat xw)) = dblks_up (TXN_HDR_SIZE + unat xw)"
    "size_dblks (trunc 64 (TXN_HDR_SIZE + unat xw + REC_TAIL_SIZE)) =
     dblks_up (TXN_HDR_SIZE + unat xw + REC_TAIL_SIZE)"
    using bnd by (simp_all add: trunc_id size_dblks_exact)
  show ?thesis
    using assms decode_first_read [OF assms(1,2)]
    by (simp add: decode_first_def xid_size_def s Let_def)
qed

lemma decode_first_complete:
  assumes xw: "bytes_word (take 8 (drop REC_HDR_SIZE page)) = xw"
    and hd: "chk_hdr \<lparr>rhdr = h, xidsize = xw\<rparr> = Inr u" and al: "malloc (unat xw) = Some b"
    and lb: "length b = unat xw" and r0: "r0 = r\<lparr>txn_hdr := \<lparr>rhdr = h, xidsize = xw\<rparr>, buff := Some b\<rparr>"
    and T: "length (txn_tail r) = REC_TAIL_SIZE"
    and bnd: "TXN_HDR_SIZE + unat xw + REC_TAIL_SIZE < 2 ^ 32"
    and fits: "TXN_HDR_SIZE + unat xw + REC_TAIL_SIZE \<le> m * JRNL_DBLK_SIZE"
    and pg: "TXN_HDR_SIZE + unat xw + REC_TAIL_SIZE \<le> length page"
  shows "decode_first r malloc h page m =
         (let r' = with_image r0 (splice (dec_image r0) TXN_HDR_SIZE
                     (take (TXN_HDR_SIZE + unat xw + REC_TAIL_SIZE - TXN_HDR_SIZE) (drop TXN_HDR_SIZE page)))
          in bindE (check_tail r') (\<lambda>r'. Inr (r', TXN_HDR_SIZE + unat xw + REC_TAIL_SIZE)))"
proof -
  let ?X = "unat xw" and ?H = TXN_HDR_SIZE and ?T = REC_TAIL_SIZE
  let ?rs = "?H + ?X + ?T" and ?s = "take (?H + unat xw + ?T - ?H) (drop ?H page)"
  have b0: "buff r0 = Some b" "length b = xid_size r0" "txn_tail r0 = txn_tail r"
    using r0 lb by (simp_all add: xid_size_def)
  have xs0: "xid_size r0 = ?X"
    using r0 by (simp add: xid_size_def)
  have hp: "?H \<le> length page" using pg by linarith
  have A: "dblks_up ?rs \<le> m"
    using fits by (simp add: dblks_up_le_iff)
  let ?b' = "splice b 0 (take ?X (drop ?H page))"
  let ?t' = "splice (txn_tail r) 0 (take ?T (drop (?H + ?X) page))"
  have 1: "copy_buff r0 0 page ?H ?X = Inr (r0\<lparr>buff := Some ?b'\<rparr>)"
    using b0 lb pg by (intro copy_buff_ok) simp_all
  have 2: "copy_tail (r0\<lparr>buff := Some ?b'\<rparr>) 0 page (?H + ?X) ?T =
           Inr (r0\<lparr>buff := Some ?b', txn_tail := ?t'\<rparr>)"
    using b0 T pg by (intro copy_tail_ok) simp_all
  have img: "with_image r0 (splice (dec_image r0) ?H ?s) = r0\<lparr>buff := Some ?b', txn_tail := ?t'\<rparr>"
  proof -
    have "with_image r0 (splice (dec_image r0) ?H ?s) =
          r0\<lparr>buff := Some (splice b (?H - ?H) (take (?H + xid_size r0 - ?H) ?s)),
             txn_tail := splice (txn_tail r0) 0 (drop (?H + xid_size r0 - ?H) ?s)\<rparr>"
      by (rule with_image_splice_across [OF b0(1,2)]) (use pg xs0 in simp_all)
    moreover have "take ?X ?s = take ?X (drop ?H page)"
      by (simp add: min_absorb1)
    moreover have "drop ?X ?s = take ?T (drop (?H + ?X) page)"
      by (simp add: drop_take add.commute)
    ultimately show ?thesis
      using b0 xs0 by simp
  qed
  have unf: "decode_first r malloc h page m =
      bindE (copy_buff r0 0 page ?H ?X) (\<lambda>r. bindE (copy_tail r 0 page (?H + ?X) ?T) (\<lambda>r.
      bindE (check_tail r) (\<lambda>r. Inr (r, ?H + ?X + ?T))))"
    using decode_first_unfold [where malloc = malloc and r = r and m = m, OF hp xw hd al r0 bnd] A by (simp add: Let_def)
  show ?thesis
    by (simp only: unf 1 2 bindE_Inr img Let_def)
qed

lemma decode_first_partial:
  assumes xw: "bytes_word (take 8 (drop REC_HDR_SIZE page)) = xw"
    and hd: "chk_hdr \<lparr>rhdr = h, xidsize = xw\<rparr> = Inr u" and al: "malloc (unat xw) = Some b"
    and lb: "length b = unat xw" and r0: "r0 = r\<lparr>txn_hdr := \<lparr>rhdr = h, xidsize = xw\<rparr>, buff := Some b\<rparr>"
    and T: "length (txn_tail r) = REC_TAIL_SIZE"
    and bnd: "TXN_HDR_SIZE + unat xw + REC_TAIL_SIZE < 2 ^ 32" and m: "0 < m"
    and sp: "m * JRNL_DBLK_SIZE < TXN_HDR_SIZE + unat xw + REC_TAIL_SIZE"
    and pg: "m * JRNL_DBLK_SIZE \<le> length page"
  shows "decode_first r malloc h page m =
         Inr (with_image r0 (splice (dec_image r0) TXN_HDR_SIZE
                (take (m * JRNL_DBLK_SIZE - TXN_HDR_SIZE) (drop TXN_HDR_SIZE page))),
              m * JRNL_DBLK_SIZE)"
proof -
  let ?X = "unat xw" and ?H = TXN_HDR_SIZE and ?T = REC_TAIL_SIZE and ?md = "m * JRNL_DBLK_SIZE"
  let ?rs = "?H + ?X + ?T" and ?s = "take (?md - ?H) (drop ?H page)"
  have b0: "buff r0 = Some b" "length b = xid_size r0" "txn_tail r0 = txn_tail r"
    using r0 lb by (simp_all add: xid_size_def)
  have xs0: "xid_size r0 = ?X"
    using r0 by (simp add: xid_size_def)
  have hm: "?H < ?md"
    using m hdr_lt_dblk dblk_le_mult [of m] by linarith
  have hp: "?H \<le> length page" using pg hm by linarith
  have nA: "\<not> dblks_up ?rs \<le> m"
    using sp by (simp add: dblks_up_le_iff)
  have tm: "trunc 32 ?md = ?md"
    using sp bnd by (intro trunc_id) linarith
  have ls: "length ?s = ?md - ?H"
    using pg by simp
  show ?thesis
  proof (cases "?H + ?X \<le> ?md")
    case True
    let ?tr = "?md - (?H + ?X)"
    have B: "dblks_up (?H + ?X) \<le> m"
      using True by (simp add: dblks_up_le_iff)
    have tr: "usub 64 (trunc 32 ?md) (?H + ?X) = ?tr"
      using tm True sp bnd by (simp add: usub64_small)
    let ?b' = "splice b 0 (take ?X (drop ?H page))"
    let ?t' = "splice (txn_tail r) 0 (take ?tr (drop (?H + ?X) page))"
    have 1: "copy_buff r0 0 page ?H ?X = Inr (r0\<lparr>buff := Some ?b'\<rparr>)"
      using b0 lb pg True by (intro copy_buff_ok) simp_all
    have img: "with_image r0 (splice (dec_image r0) ?H ?s) = r0\<lparr>buff := Some ?b', txn_tail := ?t'\<rparr>"
    proof -
      have "with_image r0 (splice (dec_image r0) ?H ?s) =
            r0\<lparr>buff := Some (splice b (?H - ?H) (take (?H + xid_size r0 - ?H) ?s)),
               txn_tail := splice (txn_tail r0) 0 (drop (?H + xid_size r0 - ?H) ?s)\<rparr>"
        by (rule with_image_splice_across [OF b0(1,2)]) (use True ls xs0 in simp_all)
      moreover have "take ?X ?s = take ?X (drop ?H page)"
        using True by (simp add: min_absorb1)
      moreover have "drop ?X ?s = take ?tr (drop (?H + ?X) page)"
        by (simp add: drop_take add.commute diff_diff_add)
      ultimately show ?thesis
        using b0 xs0 by simp
    qed
    have unf: "decode_first r malloc h page m =
        bindE (copy_buff r0 0 page ?H ?X) (\<lambda>r. if ?tr \<noteq> 0 then
          bindE (copy_tail r 0 page (?H + ?X) ?tr) (\<lambda>r. Inr (r, ?H + ?X + ?tr))
        else Inr (r, ?H + ?X))"
      using decode_first_unfold [where malloc = malloc and r = r and m = m, OF hp xw hd al r0 bnd]
        nA B by (simp only: Let_def nA B tr if_False if_True)
    show ?thesis
    proof (cases "?tr = 0")
      case True
      have e: "?H + ?X = ?md" using True \<open>?H + ?X \<le> ?md\<close> by arith
      have "r0\<lparr>buff := Some ?b', txn_tail := ?t'\<rparr> = r0\<lparr>buff := Some ?b'\<rparr>"
        using True b0 by simp
      then show ?thesis
        using e by (simp only: unf 1 bindE_Inr img True) simp
    next
      case False
      have 2: "copy_tail (r0\<lparr>buff := Some ?b'\<rparr>) 0 page (?H + ?X) ?tr =
               Inr (r0\<lparr>buff := Some ?b', txn_tail := ?t'\<rparr>)"
        using b0 T pg sp \<open>?H + ?X \<le> ?md\<close> by (intro copy_tail_ok) simp_all
      have e: "?H + ?X + ?tr = ?md" using \<open>?H + ?X \<le> ?md\<close> by arith
      show ?thesis
        using False by (simp only: unf 1 2 bindE_Inr img e not_False_eq_True if_True)
    qed
  next
    case False
    let ?c = "?md - ?H"
    have nB: "\<not> dblks_up (?H + ?X) \<le> m"
      using False by (simp add: dblks_up_le_iff)
    have c: "usub 64 (trunc 32 ?md) ?H = ?c"
      using tm hm sp bnd by (simp add: usub64_small)
    have 1: "copy_buff r0 0 page ?H ?c = Inr (r0\<lparr>buff := Some (splice b 0 ?s)\<rparr>)"
      using b0 lb pg hm False by (intro copy_buff_ok) simp_all
    have img: "with_image r0 (splice (dec_image r0) ?H ?s) = r0\<lparr>buff := Some (splice b 0 ?s)\<rparr>"
      using with_image_splice_buff [OF b0(1,2), of ?H ?s] False ls xs0 by simp
    have e: "?H + ?c = ?md" using hm by arith
    have unf: "decode_first r malloc h page m =
        bindE (copy_buff r0 0 page ?H ?c) (\<lambda>r. Inr (r, ?H + ?c))"
      using decode_first_unfold [where malloc = malloc and r = r and m = m, OF hp xw hd al r0 bnd]
        nA nB c by (simp add: Let_def)
    show ?thesis
      by (simp only: unf 1 bindE_Inr img e)
  qed
qed

lemma decode_first_call:
  assumes xw: "bytes_word (take 8 (drop REC_HDR_SIZE page)) = xw"
    and hd: "chk_hdr \<lparr>rhdr = h, xidsize = xw\<rparr> = Inr ()" and al: "malloc (unat xw) = Some b"
    and lb: "length b = unat xw" and T: "length (txn_tail r) = REC_TAIL_SIZE"
    and bnd: "TXN_HDR_SIZE + unat xw + REC_TAIL_SIZE < 2 ^ 32" and m: "0 < m"
    and pg: "min (m * JRNL_DBLK_SIZE) (TXN_HDR_SIZE + unat xw + REC_TAIL_SIZE) \<le> length page"
  shows "decode r malloc h (Some page) 0 m =
         (let r0 = r\<lparr>txn_hdr := \<lparr>rhdr = h, xidsize = xw\<rparr>, buff := Some b\<rparr>;
              r' = with_image r0 (splice (dec_image r0) TXN_HDR_SIZE
                     (take (min (m * JRNL_DBLK_SIZE) (TXN_HDR_SIZE + unat xw + REC_TAIL_SIZE) - TXN_HDR_SIZE)
                       (drop TXN_HDR_SIZE page)))
          in if TXN_HDR_SIZE + unat xw + REC_TAIL_SIZE \<le> m * JRNL_DBLK_SIZE
             then bindE (chk_tail (txn_hdr r') (txn_tail r'))
                    (\<lambda>_. Inr (r', dblks_up (TXN_HDR_SIZE + unat xw + REC_TAIL_SIZE)))
             else Inr (r', m))"
proof -
  let ?rs = "TXN_HDR_SIZE + unat xw + REC_TAIL_SIZE" and ?md = "m * JRNL_DBLK_SIZE"
  define r0 where "r0 = r\<lparr>txn_hdr := \<lparr>rhdr = h, xidsize = xw\<rparr>, buff := Some b\<rparr>"
  have dec: "decode r malloc h (Some page) 0 m =
             bindE (decode_first r malloc h page m) (\<lambda>(r, rd). Inr (r, size_dblks rd))"
    using m by (simp add: decode_def)
  show ?thesis
  proof (cases "?rs \<le> ?md")
    case True
    have mn: "min ?md ?rs = ?rs"
      using True by simp
    have pg': "?rs \<le> length page"
      using pg mn by simp
    have sz: "size_dblks ?rs = dblks_up ?rs"
      using bnd by (rule size_dblks_exact)
    show ?thesis
      using decode_first_complete [where malloc = malloc, OF xw hd al lb r0_def T bnd True pg'] True
      by (simp add: dec mn sz Let_def check_tail_def bindE_assoc r0_def [symmetric])
  next
    case False
    then have sp: "?md < ?rs" by simp
    have mn: "min ?md ?rs = ?md"
      using sp by simp
    have pg': "?md \<le> length page"
      using pg mn by simp
    have sz: "size_dblks ?md = m"
      using sp bnd by (simp add: size_dblks_exact)
    show ?thesis
      using decode_first_partial [where malloc = malloc, OF xw hd al lb r0_def T bnd m sp pg'] False
      by (simp add: dec mn sz Let_def r0_def [symmetric])
  qed
qed

text \<open>
  C2. Split decoding, first call: when the page holds a header whose \<open>xidsize\<close> field
  reads \<open>xw\<close>, the header passes \<open>chk_hdr\<close> and the allocator returns a buffer
  of \<open>xw\<close> bytes, a \<open>decode\<close> call at offset 0 with room for \<open>m > 0\<close> dblks
  installs the header and the buffer, copies the bytes of the page after the header
  that belong to the record into the payload buffer and the tail, checks the tail
  against the header when the record ends in this page and returns the dblks up to
  its end, and otherwise returns the whole \<open>m\<close> dblks.
\<close>

theorem decode_first_slice:
  assumes xw: "bytes_word (take 8 (drop REC_HDR_SIZE page)) = xw"
    and hd: "chk_hdr \<lparr>rhdr = h, xidsize = xw\<rparr> = Inr ()" and al: "malloc (unat xw) = Some b"
    and lb: "length b = unat xw" and T: "length (txn_tail r) = REC_TAIL_SIZE"
    and bnd: "TXN_HDR_SIZE + unat xw + REC_TAIL_SIZE < 2 ^ 32" and m: "0 < m"
    and pg: "min (m * JRNL_DBLK_SIZE) (TXN_HDR_SIZE + unat xw + REC_TAIL_SIZE) \<le> length page"
  shows "decode r malloc h (Some page) 0 m =
         (let r0 = r\<lparr>txn_hdr := \<lparr>rhdr = h, xidsize = xw\<rparr>, buff := Some b\<rparr>;
              r' = with_image r0 (splice (dec_image r0) TXN_HDR_SIZE
                     (take (min (m * JRNL_DBLK_SIZE) (TXN_HDR_SIZE + unat xw + REC_TAIL_SIZE) - TXN_HDR_SIZE)
                       (drop TXN_HDR_SIZE page)))
          in if TXN_HDR_SIZE + unat xw + REC_TAIL_SIZE \<le> m * JRNL_DBLK_SIZE
             then bindE (chk_tail (txn_hdr r') (txn_tail r'))
                    (\<lambda>_. Inr (r', dblks_up (TXN_HDR_SIZE + unat xw + REC_TAIL_SIZE)))
             else Inr (r', m))"
  using assms by (rule decode_first_call)

text \<open>
  C4. Header rejection before allocation: on the first call, a header whose magic is
  neither \<open>QLS_TXA_MAGIC\<close> nor \<open>QLS_TXC_MAGIC\<close> makes \<open>decode\<close> throw
  \<open>JERR_JREC_BADRECHDR\<close> whatever the allocator does, so no payload buffer is
  allocated for it.
\<close>

theorem decode_rejects_bad_magic:
  assumes "TXN_HDR_SIZE \<le> length page" and "0 < m"
    and "magic h \<noteq> QLS_TXA_MAGIC" and "magic h \<noteq> QLS_TXC_MAGIC"
  shows "decode r malloc h (Some page) 0 m = Inl JERR_JREC_BADRECHDR"
proof -
  have "chk_hdr \<lparr>rhdr = h, xidsize = bytes_word (take 8 (drop REC_HDR_SIZE page))\<rparr> =
        Inl JERR_JREC_BADRECHDR"
    using assms by (intro chk_hdr_bad_magic) simp_all
  then show ?thesis
    using decode_first_bad_hdr [where malloc = malloc and r = r and m = m, OF assms(1) refl] assms by (simp add: decode_def)
qed

text \<open>
  C6. Allocation failure: on the first call, when the header passes its check and
  the allocator cannot provide the \<open>xidsize\<close> bytes of the payload, \<open>decode\<close>
  throws \<open>JERR__MALLOC\<close> and reads nothing further.
\<close>

theorem decode_malloc_failure:
  assumes "TXN_HDR_SIZE \<le> length page" and "0 < m"
    and "chk_hdr \<lparr>rhdr = h, xidsize = bytes_word (take 8 (drop REC_HDR_SIZE page))\<rparr> = Inr ()"
    and "malloc (unat (bytes_word (take 8 (drop REC_HDR_SIZE page)) :: u64)) = None"
  shows "decode r malloc h (Some page) 0 m = Inl JERR__MALLOC"
  using decode_first_no_mem [where malloc = malloc, OF assms(1) refl assms(3,4)] assms(2) by (simp add: decode_def)

theorem decode_first_slice_witness:
  "let th = txn_hdr_init QLS_TXC_MAGIC QLS_JRNL_VERSION 0 5 200;
       pg = txn_hdr_bytes th @ replicate 104 (0::byte); al = (\<lambda>n. Some (replicate n (0::byte)));
       b = replicate 200 (0::byte); r = txn_rec_default; xw = (200::u64); h = rhdr th
   in bytes_word (take 8 (drop REC_HDR_SIZE pg)) = xw \<and> chk_hdr \<lparr>rhdr = h, xidsize = xw\<rparr> = Inr () \<and>
      al (unat xw) = Some b \<and> length b = unat xw \<and> length (txn_tail r) = REC_TAIL_SIZE \<and>
      TXN_HDR_SIZE + unat xw + REC_TAIL_SIZE < 2 ^ 32 \<and> 0 < (1::nat) \<and>
      min (1 * JRNL_DBLK_SIZE) (TXN_HDR_SIZE + unat xw + REC_TAIL_SIZE) \<le> length pg \<and>
      decode r al h (Some pg) 0 1 =
        (let r0 = r\<lparr>txn_hdr := \<lparr>rhdr = h, xidsize = xw\<rparr>, buff := Some b\<rparr>;
             r' = with_image r0 (splice (dec_image r0) TXN_HDR_SIZE
                    (take (min (1 * JRNL_DBLK_SIZE) (TXN_HDR_SIZE + unat xw + REC_TAIL_SIZE) - TXN_HDR_SIZE)
                      (drop TXN_HDR_SIZE pg)))
         in if TXN_HDR_SIZE + unat xw + REC_TAIL_SIZE \<le> 1 * JRNL_DBLK_SIZE
            then bindE (chk_tail (txn_hdr r') (txn_tail r'))
                   (\<lambda>_. Inr (r', dblks_up (TXN_HDR_SIZE + unat xw + REC_TAIL_SIZE)))
            else Inr (r', 1))"
proof -
  let ?th = "txn_hdr_init QLS_TXC_MAGIC QLS_JRNL_VERSION 0 5 200"
  let ?pg = "txn_hdr_bytes ?th @ replicate 104 (0::byte)" and ?al = "\<lambda>n. Some (replicate n (0::byte))"
  let ?b = "replicate 200 (0::byte)" and ?xw = "200::u64"
  have xw: "bytes_word (take 8 (drop REC_HDR_SIZE ?pg)) = ?xw"
    by (simp only: txn_hdr_bytes_xidsize) (simp add: txn_hdr_init_def)
  have hd: "chk_hdr \<lparr>rhdr = rhdr ?th, xidsize = ?xw\<rparr> = Inr ()"
    by (simp add: chk_hdr_def jrec_chk_hdr_def txn_hdr_init_def QLS_TXA_MAGIC_def QLS_TXC_MAGIC_def)
  have al: "?al (unat ?xw) = Some ?b" and lb: "length ?b = unat ?xw" by simp_all
  have T: "length (txn_tail txn_rec_default) = REC_TAIL_SIZE"
    by (simp add: txn_rec_default_def)
  have sz: "TXN_HDR_SIZE + unat ?xw + REC_TAIL_SIZE < 2 ^ 32" "0 < (1::nat)"
    "min (1 * JRNL_DBLK_SIZE) (TXN_HDR_SIZE + unat ?xw + REC_TAIL_SIZE) \<le> length ?pg"
    by (simp_all add: TXN_HDR_SIZE_def REC_TAIL_SIZE_def JRNL_DBLK_SIZE_def)
  note th = decode_first_slice [where r = txn_rec_default and malloc = ?al, OF xw hd al lb T sz]
  show ?thesis
    unfolding Let_def using xw hd al lb T sz th unfolding Let_def by (intro conjI)
qed

theorem decode_rejects_bad_magic_witness:
  "let pg = replicate 128 (0::byte); h = \<lparr>magic = 0x12345678, version = QLS_JRNL_VERSION, uflag = 0, rid = 1\<rparr>
   in TXN_HDR_SIZE \<le> length pg \<and> 0 < (1::nat) \<and> magic h \<noteq> QLS_TXA_MAGIC \<and> magic h \<noteq> QLS_TXC_MAGIC \<and>
      decode txn_rec_default (\<lambda>n. Some (replicate n 0)) h (Some pg) 0 1 = Inl JERR_JREC_BADRECHDR"
proof -
  let ?h = "\<lparr>magic = 0x12345678, version = QLS_JRNL_VERSION, uflag = 0, rid = 1\<rparr> :: rec_hdr_t"
  have a: "TXN_HDR_SIZE \<le> length (replicate 128 (0::byte))" "0 < (1::nat)"
    "magic ?h \<noteq> QLS_TXA_MAGIC" "magic ?h \<noteq> QLS_TXC_MAGIC"
    by (simp_all add: TXN_HDR_SIZE_def QLS_TXA_MAGIC_def QLS_TXC_MAGIC_def)
  show ?thesis
    using a decode_rejects_bad_magic [OF a, of txn_rec_default "\<lambda>n. Some (replicate n 0)"]
    unfolding Let_def by blast
qed

theorem decode_malloc_failure_witness:
  "let th = txn_hdr_init QLS_TXA_MAGIC QLS_JRNL_VERSION 0 5 200;
       pg = txn_hdr_bytes th @ replicate 104 (0::byte); h = rhdr th
   in TXN_HDR_SIZE \<le> length pg \<and> 0 < (1::nat) \<and>
      chk_hdr \<lparr>rhdr = h, xidsize = bytes_word (take 8 (drop REC_HDR_SIZE pg))\<rparr> = Inr () \<and>
      (\<lambda>_. None) (unat (bytes_word (take 8 (drop REC_HDR_SIZE pg)) :: u64)) = (None :: byte list option) \<and>
      decode txn_rec_default (\<lambda>_. None) h (Some pg) 0 1 = Inl JERR__MALLOC"
proof -
  let ?th = "txn_hdr_init QLS_TXA_MAGIC QLS_JRNL_VERSION 0 5 200"
  let ?pg = "txn_hdr_bytes ?th @ replicate 104 (0::byte)"
  have xw: "bytes_word (take 8 (drop REC_HDR_SIZE ?pg)) = (200::u64)"
    by (simp only: txn_hdr_bytes_xidsize) (simp add: txn_hdr_init_def)
  have a: "TXN_HDR_SIZE \<le> length ?pg" "0 < (1::nat)"
    "chk_hdr \<lparr>rhdr = rhdr ?th, xidsize = bytes_word (take 8 (drop REC_HDR_SIZE ?pg))\<rparr> = Inr ()"
    "(\<lambda>_. None) (unat (bytes_word (take 8 (drop REC_HDR_SIZE ?pg)) :: u64)) = (None :: byte list option)"
    by (simp_all only: xw) (simp_all add: chk_hdr_def jrec_chk_hdr_def txn_hdr_init_def
        QLS_TXA_MAGIC_def QLS_TXC_MAGIC_def)
  show ?thesis
    unfolding Let_def using a decode_malloc_failure [OF a, of txn_rec_default] by blast
qed

end
