(* ===== verification/RoundTrip.thy ===== *)
theory RoundTrip
  imports Decode
begin

text \<open>
  The encoder and the decoder together: the pages \<open>encode_run\<close> produces hold
  consecutive slices of the record's serialization (\<open>encode_run_carries\<close>), and
  \<open>decode_run\<close> over pages that hold such slices rebuilds the serialization in the
  decoded object, one \<open>decode\<close> call per page (\<open>decode_run_first\<close>,
  \<open>decode_run_rebuilds\<close>); so decoding what was encoded, with the same call
  boundaries, gives back the header, the xid and the tail.
\<close>

text \<open>
  The caller of \<open>decode\<close> (the journal's read path, outside \<open>src/\<close>, modelled from the
  specification, section 2, like \<open>encode_run\<close>): it hands the decoder one page after the
  other with the number of dblks it holds for the record, passes the running dblk
  offset, adds the count each call returns, and stops once the offset reaches
  \<open>rec_size_dblks\<close>.
\<close>

fun decode_run ::
  "txn_rec \<Rightarrow> (nat \<Rightarrow> byte list option) \<Rightarrow> rec_hdr_t \<Rightarrow> nat \<Rightarrow> (byte list \<times> nat) list \<Rightarrow> (txn_rec \<times> nat) res" where
  "decode_run r malloc h k [] = Inr (r, k)"
| "decode_run r malloc h k ((pg, m) # ps) =
     (if k \<noteq> 0 \<and> rec_size_dblks r \<le> k then Inr (r, k)
      else bindE (decode r malloc h (Some pg) k m) (\<lambda>(r', n). decode_run r' malloc h (k + n) ps))"

text \<open>
  \<open>carries img k ps\<close>: the pages \<open>ps\<close>, read from dblk offset \<open>k\<close> on, hold the
  image \<open>img\<close> from byte \<open>k * JRNL_DBLK_SIZE\<close> on: each page holds the next slice, as
  many dblks as its count says, and the list ends with the page holding the last byte.
\<close>

fun carries :: "byte list \<Rightarrow> nat \<Rightarrow> (byte list \<times> nat) list \<Rightarrow> bool" where
  "carries img k [] \<longleftrightarrow> False"
| "carries img k ((pg, n) # ps) \<longleftrightarrow>
     k * JRNL_DBLK_SIZE < length img \<and> 0 < n \<and> n * JRNL_DBLK_SIZE \<le> length pg \<and>
     take (min (n * JRNL_DBLK_SIZE) (length img - k * JRNL_DBLK_SIZE)) pg =
       take (n * JRNL_DBLK_SIZE) (drop (k * JRNL_DBLK_SIZE) img) \<and>
     (if length img \<le> (k + n) * JRNL_DBLK_SIZE then ps = [] else carries img (k + n) ps)"

subsection \<open>The decoded image\<close>

lemma with_image_fields:
  "txn_hdr (with_image r img) = txn_hdr r" "xid_size (with_image r img) = xid_size r"
  by (simp_all add: with_image_def xid_size_def)

lemma dec_image_length:
  "dec_ready r \<Longrightarrow> length (dec_image r) = TXN_HDR_SIZE + xid_size r + REC_TAIL_SIZE"
  by (auto simp: dec_image_def dec_ready_def split: option.splits)

lemma dec_image_with_image:
  assumes "dec_ready r" and "length img = TXN_HDR_SIZE + xid_size r + REC_TAIL_SIZE"
    and "take TXN_HDR_SIZE img = txn_hdr_bytes (txn_hdr r)"
  shows "dec_image (with_image r img) = img" and "dec_ready (with_image r img)"
proof -
  have "txn_hdr_bytes (txn_hdr r) @ take (xid_size r) (drop TXN_HDR_SIZE img) @
        drop (TXN_HDR_SIZE + xid_size r) img = img"
    using assms(3) by (metis append_take_drop_id drop_drop add.commute)
  then show "dec_image (with_image r img) = img"
    by (simp add: dec_image_def with_image_def)
  show "dec_ready (with_image r img)"
    using assms by (simp add: dec_ready_def with_image_def xid_size_def)
qed

lemma take_splice_dec_image:
  assumes "dec_ready r" and "TXN_HDR_SIZE \<le> p" and "p + length s \<le> TXN_HDR_SIZE + xid_size r + REC_TAIL_SIZE"
  shows "take TXN_HDR_SIZE (splice (dec_image r) p s) = txn_hdr_bytes (txn_hdr r)"
    and "length (splice (dec_image r) p s) = TXN_HDR_SIZE + xid_size r + REC_TAIL_SIZE"
  using assms by (simp_all add: splice_def dec_image_length) (simp add: dec_image_def)

subsection \<open>The encoder's pages carry the serialization\<close>

lemma encode_run_carries:
  assumes ok: "enc_ready r xid"
    and caps: "\<forall>(pg, m) \<in> set ps. 0 < m \<and> m * JRNL_DBLK_SIZE < 2 ^ 32 \<and> m * JRNL_DBLK_SIZE \<le> length pg"
    and inside: "k * JRNL_DBLK_SIZE < TXN_HDR_SIZE + xid_size r + REC_TAIL_SIZE"
    and run: "encode_run r k ps = Inr pages"
    and enough: "TXN_HDR_SIZE + xid_size r + REC_TAIL_SIZE \<le> (k + sum_list (map snd ps)) * JRNL_DBLK_SIZE"
  shows "carries (enc_image r xid) k pages"
  using caps inside run enough
proof (induction ps arbitrary: k pages)
  case Nil
  then show ?case by simp
next
  case (Cons a ps)
  obtain pg m where a: "a = (pg, m)" by (cases a)
  let ?rs = "TXN_HDR_SIZE + xid_size r + REC_TAIL_SIZE" and ?D = JRNL_DBLK_SIZE
  let ?s = "take (m * ?D) (drop (k * ?D) (enc_image r xid))"
  let ?n = "dblks_up (min (m * ?D) (?rs - k * ?D))"
  have m: "0 < m" "m * ?D < 2 ^ 32" "m * ?D \<le> length pg"
    using Cons.prems(1) a by auto
  have li: "length (enc_image r xid) = ?rs"
    using ok by (rule length_enc_image)
  have sd: "rec_size_dblks r = dblks_up ?rs"
    using ok by (simp add: rec_size_dblks_def enc_ready_size_dblks)
  have nk: "\<not> dblks_up ?rs \<le> k"
    using Cons.prems(2) by (simp add: dblks_up_le_iff)
  have enc: "encode r (Some pg) k m = Inr (splice pg 0 ?s, ?n)"
    using encode_call [OF ok m Cons.prems(2)] .
  have ls: "length ?s = min (m * ?D) (?rs - k * ?D)"
    using li by simp
  have lp: "length (splice pg 0 ?s) = length pg"
    using ls m(3) by (intro length_splice) simp
  have n0: "0 < ?n"
    using Cons.prems(2) m(1) by (simp add: dblks_up_less_iff min_def)
  have nm: "?n \<le> m"
    by (simp add: dblks_up_le_iff)
  have npg: "?n * ?D \<le> length (splice pg 0 ?s)"
    using nm m(3) lp by (metis le_trans mult_le_mono1)
  show ?case
  proof (cases "?rs \<le> (k + m) * ?D")
    case True
    have "?rs - k * ?D \<le> m * ?D"
      using True by (simp add: add_mult_distrib)
    then have mn: "min (m * ?D) (?rs - k * ?D) = ?rs - k * ?D"
      by (rule min_absorb2)
    then have n: "?n = dblks_up (?rs - k * ?D)"
      by (simp only:)
    have stop: "encode_run r (k + ?n) ps = Inr []"
      using sd Cons.prems(2) n by (intro encode_run_done) (simp add: dblks_up_shift less_imp_le)
    have pages: "pages = [(splice pg 0 ?s, ?n)]"
      using Cons.prems(3) a enc stop sd nk by simp
    have fit: "?rs \<le> (k + ?n) * ?D"
      using dblks_up_ge [of "?rs - k * ?D"] n Cons.prems(2) by (simp add: add_mult_distrib)
    have "min (?n * ?D) (?rs - k * ?D) = ?rs - k * ?D"
      using dblks_up_ge [of "?rs - k * ?D"] n by simp
    moreover have "take (?n * ?D) (drop (k * ?D) (enc_image r xid)) = drop (k * ?D) (enc_image r xid)"
      using dblks_up_ge [of "?rs - k * ?D"] n li by simp
    moreover have "take (?rs - k * ?D) (splice pg 0 ?s) = drop (k * ?D) (enc_image r xid)"
      using ls mn li by (simp add: splice_def)
    ultimately show ?thesis
      using pages n0 npg fit li Cons.prems(2) by simp
  next
    case False
    have "m * ?D \<le> ?rs - k * ?D"
      using False by (simp add: add_mult_distrib)
    then have mn: "min (m * ?D) (?rs - k * ?D) = m * ?D"
      by (rule min_absorb1)
    then have n: "?n = m"
      by simp
    obtain rest where rest: "encode_run r (k + m) ps = Inr rest" and pages: "pages = (splice pg 0 ?s, m) # rest"
      using Cons.prems(3) a enc sd nk n by (auto simp: bindE_eq_Inr)
    have "carries (enc_image r xid) (k + m) rest"
    proof (rule Cons.IH)
      show "\<forall>(pg, m) \<in> set ps. 0 < m \<and> m * ?D < 2 ^ 32 \<and> m * ?D \<le> length pg"
        using Cons.prems(1) by simp
      show "(k + m) * ?D < ?rs" using False by simp
      show "encode_run r (k + m) ps = Inr rest" by (rule rest)
      show "?rs \<le> (k + m + sum_list (map snd ps)) * ?D"
        using Cons.prems(4) a by (simp add: algebra_simps)
    qed
    moreover have "take (m * ?D) (splice pg 0 ?s) = ?s"
      using ls mn by simp
    ultimately show ?thesis
      using pages m False li Cons.prems(2) mn lp by simp
  qed
qed

subsection \<open>The decoder rebuilds what the pages carry\<close>

lemma splice_prefix_agree:
  assumes "length I = length img" and "take p I = take p img" and "p \<le> length img"
  shows "take (p + q) (splice I p (take q (drop p img))) = take (p + q) img"
proof (cases "p + q \<le> length img")
  case True
  then show ?thesis
    using assms by (simp add: splice_def take_add min_def)
next
  case False
  then have "splice I p (take q (drop p img)) = img"
    using assms by (simp add: splice_def)
  then show ?thesis by simp
qed

lemma dec_image_parts:
  assumes "dec_ready r"
  shows "buff r = Some (take (xid_size r) (drop TXN_HDR_SIZE (dec_image r)))"
    and "txn_tail r = drop (TXN_HDR_SIZE + xid_size r) (dec_image r)"
  using assms by (auto simp: dec_ready_def dec_image_def split: option.splits)

lemma decode_run_rebuilds:
  assumes "dec_ready r" and "length img = TXN_HDR_SIZE + xid_size r + REC_TAIL_SIZE"
    and "0 < k" and "take (k * JRNL_DBLK_SIZE) (dec_image r) = take (k * JRNL_DBLK_SIZE) img"
    and "carries img k ps"
    and "chk_tail (txn_hdr r) (drop (TXN_HDR_SIZE + xid_size r) img) = Inr ()"
  shows "\<exists>r'. decode_run r malloc h k ps =
           Inr (r', dblks_up (TXN_HDR_SIZE + xid_size r + REC_TAIL_SIZE)) \<and>
           dec_image r' = img \<and> dec_ready r' \<and> txn_hdr r' = txn_hdr r \<and> xid_size r' = xid_size r"
  using assms
proof (induction ps arbitrary: r k)
  case Nil
  then show ?case by simp
next
  case (Cons a ps)
  obtain pg n where a: "a = (pg, n)" by (cases a)
  let ?rs = "TXN_HDR_SIZE + xid_size r + REC_TAIL_SIZE" and ?D = JRNL_DBLK_SIZE
  let ?s = "take (n * ?D) (drop (k * ?D) img)"
  let ?r' = "with_image r (splice (dec_image r) (k * ?D) ?s)"
  have c: "k * ?D < ?rs" "0 < n" "n * ?D \<le> length pg"
    "take (min (n * ?D) (?rs - k * ?D)) pg = ?s"
    and more: "if ?rs \<le> (k + n) * ?D then ps = [] else carries img (k + n) ps"
    using Cons.prems(2,5) a by simp_all
  have b: "?rs < 2 ^ 32" using Cons.prems(1) by (simp add: dec_ready_def)
  have hk: "TXN_HDR_SIZE \<le> k * ?D"
    using Cons.prems(3) hdr_le_dblk dblk_le_mult [of k] by linarith
  have sd: "rec_size_dblks r = dblks_up ?rs"
    using b by (simp add: rec_size_dblks_def rec_size_exact size_dblks_exact)
  have go: "\<not> rec_size_dblks r \<le> k"
    using c(1) sd by (simp add: dblks_up_le_iff)
  have run: "decode_run r malloc h k (a # ps) =
      bindE (decode r malloc h (Some pg) k n) (\<lambda>(r', n'). decode_run r' malloc h (k + n') ps)"
    using go a by simp
  have pgl: "min (n * ?D) (?rs - k * ?D) \<le> length pg"
    using c(3) by linarith
  have dec: "decode r malloc h (Some pg) k n =
      (if ?rs \<le> (k + n) * ?D
       then bindE (chk_tail (txn_hdr ?r') (txn_tail ?r')) (\<lambda>_. Inr (?r', dblks_up (?rs - k * ?D)))
       else Inr (?r', n))"
    using decode_cont_call [OF Cons.prems(1,3) c(2,1) pgl] c(4) by (simp add: Let_def)
  have ls: "k * ?D + length ?s \<le> ?rs"
    using Cons.prems(2) c(1) by (simp add: min_def) arith
  have sp: "take TXN_HDR_SIZE (splice (dec_image r) (k * ?D) ?s) = txn_hdr_bytes (txn_hdr r)"
    "length (splice (dec_image r) (k * ?D) ?s) = ?rs"
    using take_splice_dec_image [OF Cons.prems(1) hk ls] by simp_all
  have img': "dec_image ?r' = splice (dec_image r) (k * ?D) ?s" and rdy: "dec_ready ?r'"
    using dec_image_with_image [OF Cons.prems(1) sp(2) sp(1)] by simp_all
  have agree: "take ((k + n) * ?D) (dec_image ?r') = take ((k + n) * ?D) img"
    using splice_prefix_agree [of "dec_image r" img "k * ?D" "n * ?D"] Cons.prems(2,4) c(1)
      dec_image_length [OF Cons.prems(1)] img' by (simp add: add_mult_distrib)
  have fl: "txn_hdr ?r' = txn_hdr r" "xid_size ?r' = xid_size r"
    by (rule with_image_fields)+
  show ?case
  proof (cases "?rs \<le> (k + n) * ?D")
    case True
    have whole: "dec_image ?r' = img"
      using agree True Cons.prems(2) dec_image_length [OF rdy] fl(2)
      by (metis take_all)
    have tl: "txn_tail ?r' = drop (TXN_HDR_SIZE + xid_size r) img"
      using dec_image_parts(2) [OF rdy] whole fl(2) by simp
    have cnt: "k + dblks_up (?rs - k * ?D) = dblks_up ?rs"
      using c(1) dblks_up_shift [of k ?rs] dblks_up_less_iff [of k ?rs] by simp
    have "decode_run r malloc h k (a # ps) = Inr (?r', dblks_up ?rs)"
      unfolding run using True more dec tl fl Cons.prems(6) cnt by simp
    then show ?thesis
      using whole rdy fl by blast
  next
    case False
    have "\<exists>r''. decode_run ?r' malloc h (k + n) ps =
             Inr (r'', dblks_up (TXN_HDR_SIZE + xid_size ?r' + REC_TAIL_SIZE)) \<and>
             dec_image r'' = img \<and> dec_ready r'' \<and> txn_hdr r'' = txn_hdr ?r' \<and> xid_size r'' = xid_size ?r'"
    proof (rule Cons.IH)
      show "dec_ready ?r'" by (rule rdy)
      show "length img = TXN_HDR_SIZE + xid_size ?r' + REC_TAIL_SIZE" using Cons.prems(2) fl by simp
      show "0 < k + n" using c(2) by simp
      show "take ((k + n) * ?D) (dec_image ?r') = take ((k + n) * ?D) img" by (rule agree)
      show "carries img (k + n) ps" using more False by simp
      show "chk_tail (txn_hdr ?r') (drop (TXN_HDR_SIZE + xid_size ?r') img) = Inr ()"
        using Cons.prems(6) fl by simp
    qed
    then show ?thesis
      unfolding run using False dec fl by simp
  qed
qed

lemma decode_first_page:
  assumes hb: "take TXN_HDR_SIZE img = txn_hdr_bytes th"
    and li: "length img = TXN_HDR_SIZE + unat (xidsize th) + REC_TAIL_SIZE"
    and bnd: "length img < 2 ^ 32" and hd: "chk_hdr th = Inr ()"
    and al: "malloc (unat (xidsize th)) = Some b" and lb: "length b = unat (xidsize th)"
    and T0: "length (txn_tail r0) = REC_TAIL_SIZE"
    and n: "0 < n" and pgl: "n * JRNL_DBLK_SIZE \<le> length pg"
    and sl: "take (min (n * JRNL_DBLK_SIZE) (length img)) pg = take (n * JRNL_DBLK_SIZE) img"
  shows "\<exists>r1. decode r0 malloc (rhdr th) (Some pg) 0 n =
           (if length img \<le> n * JRNL_DBLK_SIZE
            then bindE (chk_tail (txn_hdr r1) (txn_tail r1)) (\<lambda>_. Inr (r1, dblks_up (length img)))
            else Inr (r1, n)) \<and>
         dec_ready r1 \<and> take (n * JRNL_DBLK_SIZE) (dec_image r1) = take (n * JRNL_DBLK_SIZE) img \<and>
         txn_hdr r1 = th \<and> xid_size r1 = unat (xidsize th)"
proof -
  let ?X = "unat (xidsize th)" and ?H = TXN_HDR_SIZE
  let ?rs = "?H + ?X + REC_TAIL_SIZE" and ?nd = "n * JRNL_DBLK_SIZE"
  have hn: "?H < ?nd"
    using n hdr_lt_dblk dblk_le_mult [of n] by linarith
  have tp: "take ?H pg = take ?H img"
    using arg_cong [OF sl, of "take ?H"] hn li by (simp add: min_def split: if_splits)
  have xw: "bytes_word (take 8 (drop REC_HDR_SIZE pg)) = xidsize th"
  proof -
    have "take 8 (drop REC_HDR_SIZE pg) = take 8 (drop REC_HDR_SIZE (take ?H pg))"
      by (simp add: rec_hdr_lt_txn_hdr [symmetric] drop_take)
    also have "\<dots> = take 8 (drop REC_HDR_SIZE (txn_hdr_bytes th @ []))"
      using tp hb by simp
    finally show ?thesis
      using txn_hdr_bytes_xidsize [of th "[]"] by simp
  qed
  have eta: "\<lparr>rhdr = rhdr th, xidsize = xidsize th\<rparr> = th"
    by (cases th) simp
  have hd': "chk_hdr \<lparr>rhdr = rhdr th, xidsize = xidsize th\<rparr> = Inr ()"
    unfolding eta by (rule hd)
  have pg': "min ?nd ?rs \<le> length pg" using pgl by linarith
  define r0' where "r0' = r0\<lparr>txn_hdr := \<lparr>rhdr = rhdr th, xidsize = xidsize th\<rparr>, buff := Some b\<rparr>"
  let ?s = "take (?nd - ?H) (drop ?H img)"
  let ?r1 = "with_image r0' (splice (dec_image r0') ?H ?s)"
  have s: "take (min ?nd ?rs - ?H) (drop ?H pg) = ?s"
    using sl li by (metis drop_take take_drop)
  have dec: "decode r0 malloc (rhdr th) (Some pg) 0 n =
      (if ?rs \<le> ?nd then bindE (chk_tail (txn_hdr ?r1) (txn_tail ?r1)) (\<lambda>_. Inr (?r1, dblks_up ?rs))
       else Inr (?r1, n))"
    using decode_first_call [where r = r0 and malloc = malloc, OF xw hd' al lb T0 _ n pg']
      bnd li s by (simp add: Let_def r0'_def)
  have xs0: "xid_size r0' = ?X" and th0: "txn_hdr r0' = th"
    using eta by (simp_all add: r0'_def xid_size_def)
  have rdy0: "dec_ready r0'"
    using lb T0 bnd li by (simp add: dec_ready_def r0'_def xid_size_def)
  have tk0: "take ?H (dec_image r0') = take ?H img"
    using hb th0 by (simp add: dec_image_def)
  have ls: "?H + length ?s \<le> ?H + xid_size r0' + REC_TAIL_SIZE"
    using li xs0 by simp
  have sp: "take ?H (splice (dec_image r0') ?H ?s) = txn_hdr_bytes (txn_hdr r0')"
    "length (splice (dec_image r0') ?H ?s) = ?H + xid_size r0' + REC_TAIL_SIZE"
    using take_splice_dec_image [OF rdy0 le_refl ls] by simp_all
  have img1: "dec_image ?r1 = splice (dec_image r0') ?H ?s" and rdy1: "dec_ready ?r1"
    using dec_image_with_image [OF rdy0 sp(2) sp(1)] by simp_all
  have agree: "take ?nd (dec_image ?r1) = take ?nd img"
    using splice_prefix_agree [of "dec_image r0'" img ?H "?nd - ?H"] tk0 li xs0 hn img1
      dec_image_length [OF rdy0] by simp
  have fl: "txn_hdr ?r1 = th" "xid_size ?r1 = ?X"
    using with_image_fields [of r0'] th0 xs0 by simp_all
  show ?thesis
    using dec rdy1 agree fl li by (intro exI [of _ ?r1]) simp
qed

lemma decode_run_first:
  assumes hb: "take TXN_HDR_SIZE img = txn_hdr_bytes th"
    and li: "length img = TXN_HDR_SIZE + unat (xidsize th) + REC_TAIL_SIZE"
    and bnd: "length img < 2 ^ 32"
    and hd: "chk_hdr th = Inr ()"
    and tv: "chk_tail th (drop (TXN_HDR_SIZE + unat (xidsize th)) img) = Inr ()"
    and al: "malloc (unat (xidsize th)) = Some b" and lb: "length b = unat (xidsize th)"
    and T0: "length (txn_tail r0) = REC_TAIL_SIZE"
    and car: "carries img 0 ps"
  shows "\<exists>r'. decode_run r0 malloc (rhdr th) 0 ps = Inr (r', dblks_up (length img)) \<and>
              dec_image r' = img \<and> dec_ready r' \<and> txn_hdr r' = th"
proof (cases ps)
  case Nil
  then show ?thesis using car by simp
next
  case (Cons a ps')
  obtain pg n where a: "a = (pg, n)" by (cases a)
  let ?X = "unat (xidsize th)" and ?H = TXN_HDR_SIZE and ?nd = "n * JRNL_DBLK_SIZE"
  have c: "0 < n" "?nd \<le> length pg" "take (min ?nd (length img)) pg = take ?nd img"
    and more: "if length img \<le> ?nd then ps' = [] else carries img n ps'"
    using car Cons a by (simp_all split: if_splits)
  obtain r1 where dec: "decode r0 malloc (rhdr th) (Some pg) 0 n =
       (if length img \<le> ?nd then bindE (chk_tail (txn_hdr r1) (txn_tail r1)) (\<lambda>_. Inr (r1, dblks_up (length img)))
        else Inr (r1, n))"
    and rdy1: "dec_ready r1" and agree: "take ?nd (dec_image r1) = take ?nd img"
    and fl: "txn_hdr r1 = th" "xid_size r1 = ?X"
    using decode_first_page [where malloc = malloc, OF hb li bnd hd al lb T0 c] by blast
  have run: "decode_run r0 malloc (rhdr th) 0 (a # ps') =
      bindE (decode r0 malloc (rhdr th) (Some pg) 0 n) (\<lambda>(r', n'). decode_run r' malloc (rhdr th) n' ps')"
    using a by simp
  show ?thesis
  proof (cases "length img \<le> ?nd")
    case True
    have whole: "dec_image r1 = img"
      using agree True li dec_image_length [OF rdy1] fl(2) by (metis take_all)
    have tl: "txn_tail r1 = drop (?H + ?X) img"
      using dec_image_parts(2) [OF rdy1] whole fl(2) by simp
    have "decode_run r0 malloc (rhdr th) 0 ps = Inr (r1, dblks_up (length img))"
      unfolding Cons run using True more dec tl fl tv by simp
    then show ?thesis
      using whole fl rdy1 by blast
  next
    case False
    have "\<exists>r'. decode_run r1 malloc (rhdr th) n ps' =
             Inr (r', dblks_up (?H + xid_size r1 + REC_TAIL_SIZE)) \<and>
             dec_image r' = img \<and> dec_ready r' \<and> txn_hdr r' = txn_hdr r1 \<and> xid_size r' = xid_size r1"
      using decode_run_rebuilds [OF rdy1 _ c(1) agree, of ps' malloc "rhdr th"] li fl more False tv
      by simp
    then obtain r' where r': "decode_run r1 malloc (rhdr th) n ps' = Inr (r', dblks_up (length img))"
      "dec_image r' = img" "dec_ready r'" "txn_hdr r' = th"
      using fl li by auto
    have "decode_run r0 malloc (rhdr th) 0 ps = Inr (r', dblks_up (length img))"
      unfolding Cons run using False dec r'(1) by simp
    then show ?thesis
      using r' by blast
  qed
qed

subsection \<open>Round trip\<close>

text \<open>
  C10. Split round trip: a record ready to be encoded whose header passes
  \<open>chk_hdr\<close> and whose tail matches its header, encoded by \<open>encode_run\<close> over pages
  of any capacities covering it, and decoded page by page with the same call boundaries
  by \<open>decode_run\<close> into any record object, when the allocator provides the payload
  buffer, ends at dblk offset \<open>ceil(rec_size / JRNL_DBLK_SIZE)\<close> with the original
  header, the original xid returned by \<open>get_xid\<close>, and the original tail.
\<close>

theorem encode_decode_roundtrip:
  assumes ok: "enc_ready r xid" and hd: "chk_hdr (txn_hdr r) = Inr ()"
    and tv: "chk_tail (txn_hdr r) (txn_tail r) = Inr ()"
    and caps: "\<forall>(pg, m) \<in> set ps. 0 < m \<and> m * JRNL_DBLK_SIZE < 2 ^ 32 \<and> m * JRNL_DBLK_SIZE \<le> length pg"
    and enough: "TXN_HDR_SIZE + xid_size r + REC_TAIL_SIZE \<le> sum_list (map snd ps) * JRNL_DBLK_SIZE"
    and run: "encode_run r 0 ps = Inr pages"
    and al: "malloc (xid_size r) = Some b" and lb: "length b = xid_size r"
    and T0: "length (txn_tail r0) = REC_TAIL_SIZE"
  shows "\<exists>r'. decode_run r0 malloc (rhdr (txn_hdr r)) 0 pages =
              Inr (r', dblks_up (TXN_HDR_SIZE + xid_size r + REC_TAIL_SIZE)) \<and>
              txn_hdr r' = txn_hdr r \<and> get_xid r' = (Some (take (xid_size r) xid), xid_size r) \<and>
              txn_tail r' = txn_tail r"
proof -
  let ?img = "enc_image r xid" and ?rs = "TXN_HDR_SIZE + xid_size r + REC_TAIL_SIZE"
  have li: "length ?img = ?rs" by (rule length_enc_image [OF ok])
  have X: "xid_size r \<le> length xid" and b: "?rs < 2 ^ 32" and T: "length (txn_tail r) = REC_TAIL_SIZE"
    using ok by (simp_all add: enc_ready_def)
  have car: "carries ?img 0 pages"
    using encode_run_carries [OF ok caps _ run] enough by simp
  have hb: "take TXN_HDR_SIZE ?img = txn_hdr_bytes (txn_hdr r)"
    by (simp add: enc_image_def)
  have tl: "drop (TXN_HDR_SIZE + xid_size r) ?img = txn_tail r"
    using X by (simp add: enc_image_def)
  obtain r' where r': "decode_run r0 malloc (rhdr (txn_hdr r)) 0 pages = Inr (r', dblks_up ?rs)"
    "dec_image r' = ?img" "dec_ready r'" "txn_hdr r' = txn_hdr r"
    using decode_run_first [where malloc = malloc and b = b, OF hb _ _ hd _ _ _ T0 car] li b tv tl al lb
    by (auto simp: xid_size_def)
  have xs: "xid_size r' = xid_size r"
    using r'(4) by (simp add: xid_size_def)
  have "buff r' = Some (take (xid_size r) xid)" and "txn_tail r' = txn_tail r"
    using dec_image_parts [OF r'(3)] r'(2) xs X tl by (simp_all add: enc_image_def)
  then show ?thesis
    using r'(1,4) xs by (simp add: get_xid_def)
qed

theorem encode_decode_roundtrip_witness:
  "let r = txn_rec_new QLS_TXC_MAGIC 5 (Some (replicate 200 7)) 200; x = replicate 200 (7::byte);
       ps = [(replicate 128 (0::byte), 1::nat), (replicate 256 0, 2)]
   in \<exists>pages. encode_run r 0 ps = Inr pages \<and>
        (\<exists>r'. decode_run txn_rec_default (\<lambda>n. Some (replicate n 0)) (rhdr (txn_hdr r)) 0 pages = Inr (r', 2) \<and>
              txn_hdr r' = txn_hdr r \<and> get_xid r' = (Some x, 200) \<and> txn_tail r' = txn_tail r)"
proof -
  let ?r = "txn_rec_new QLS_TXC_MAGIC 5 (Some (replicate 200 7)) 200" and ?x = "replicate 200 (7::byte)"
    and ?ps = "[(replicate 128 (0::byte), 1::nat), (replicate 256 0, 2)]"
  have ok: "enc_ready ?r ?x"
    by (rule txn_rec_new_enc_ready) (simp_all add: TXN_HDR_SIZE_def REC_TAIL_SIZE_def)
  have caps: "\<forall>(pg, m) \<in> set ?ps. 0 < m \<and> m * JRNL_DBLK_SIZE < 2 ^ 32 \<and> m * JRNL_DBLK_SIZE \<le> length pg"
    by (simp add: JRNL_DBLK_SIZE_def)
  have en: "TXN_HDR_SIZE + xid_size ?r + REC_TAIL_SIZE \<le> sum_list (map snd ?ps) * JRNL_DBLK_SIZE"
    by (simp add: JRNL_DBLK_SIZE_def TXN_HDR_SIZE_def REC_TAIL_SIZE_def)
  have en0: "TXN_HDR_SIZE + xid_size ?r + REC_TAIL_SIZE \<le> (0 + sum_list (map snd ?ps)) * JRNL_DBLK_SIZE"
    using en by simp
  obtain pages where run: "encode_run ?r 0 ?ps = Inr pages"
    using encode_run_runs [OF ok caps en0] by blast
  have hd: "chk_hdr (txn_hdr ?r) = Inr ()"
    by (simp add: chk_hdr_def jrec_chk_hdr_def txn_rec_new_def txn_hdr_init_def Let_def
        QLS_TXA_MAGIC_def QLS_TXC_MAGIC_def)
  have tv: "chk_tail (txn_hdr ?r) (txn_tail ?r) = Inr ()"
    by (simp add: chk_tail_def jrec_chk_tail_def txn_rec_new_def txn_hdr_init_def rec_tail_copy_def Let_def)
  have T0: "length (txn_tail txn_rec_default) = REC_TAIL_SIZE"
    by (simp add: txn_rec_default_def)
  have d: "dblks_up (TXN_HDR_SIZE + xid_size ?r + REC_TAIL_SIZE) = 2"
    by (simp add: dblks_up_def TXN_HDR_SIZE_def REC_TAIL_SIZE_def JRNL_DBLK_SIZE_def)
  have "\<exists>r'. decode_run txn_rec_default (\<lambda>n. Some (replicate n 0)) (rhdr (txn_hdr ?r)) 0 pages =
              Inr (r', dblks_up (TXN_HDR_SIZE + xid_size ?r + REC_TAIL_SIZE)) \<and>
              txn_hdr r' = txn_hdr ?r \<and> get_xid r' = (Some (take (xid_size ?r) ?x), xid_size ?r) \<and>
              txn_tail r' = txn_tail ?r"
    using encode_decode_roundtrip [OF ok hd tv caps en run _ _ T0, of "\<lambda>n. Some (replicate n 0)"]
    by simp
  then show ?thesis
    using run d by (simp add: Let_def)
qed

end
