(* ===== verification/Recover.thy ===== *)
theory Recover
  imports Decode
begin

text \<open>
  \<open>txn_rec::rcv_decode\<close> (\<open>txn_rec.cpp\<close>, lines 309--364): the recovery decoder, which
  pulls the rest of a record (the caller has already read its \<open>rec_hdr_t\<close>) from a
  \<open>std::ifstream\<close>. The stream is explicit state: the bytes from the get position to
  the end of the file, the \<open>eofbit\<close>, \<open>failbit\<close> and \<open>badbit\<close> of its
  \<open>rdstate()\<close>, and the count \<open>gcount()\<close> of the last unformatted input. Its three
  operations are modelled after the C++ standard library: \<open>read(p, n)\<close> copies up
  to \<open>n\<close> bytes and sets \<open>eofbit\<close> and \<open>failbit\<close> when fewer are left;
  \<open>ignore(n)\<close> skips up to \<open>n\<close> bytes and sets only \<open>eofbit\<close> when fewer are
  left; both first build a sentry, which fails (setting \<open>failbit\<close>, extracting
  nothing) when the stream is not \<open>good()\<close>. The result of \<open>rcv_decode\<close> is the
  returned \<open>bool\<close>, the record object, the stream and the in/out \<open>rec_offs\<close>.
\<close>

record ifstream =
  sbuf :: "byte list"
  eofbit :: bool
  failbit :: bool
  badbit :: bool
  gcnt :: nat

definition good :: "ifstream \<Rightarrow> bool" where
  "good s \<longleftrightarrow> \<not> eofbit s \<and> \<not> failbit s \<and> \<not> badbit s"

text \<open>\<open>std::istream::read(p, n)\<close>: the bytes obtained and the stream after the call.\<close>

definition is_read :: "ifstream \<Rightarrow> nat \<Rightarrow> byte list \<times> ifstream" where
  "is_read s n =
     (if \<not> good s then ([], s\<lparr>failbit := True, gcnt := 0\<rparr>)
      else if n \<le> length (sbuf s) then (take n (sbuf s), s\<lparr>sbuf := drop n (sbuf s), gcnt := n\<rparr>)
      else (sbuf s, s\<lparr>sbuf := [], eofbit := True, failbit := True, gcnt := length (sbuf s)\<rparr>))"

text \<open>\<open>std::istream::ignore(n)\<close>.\<close>

definition is_ignore :: "ifstream \<Rightarrow> nat \<Rightarrow> ifstream" where
  "is_ignore s n =
     (if \<not> good s then s\<lparr>failbit := True, gcnt := 0\<rparr>
      else if n \<le> length (sbuf s) then s\<lparr>sbuf := drop n (sbuf s), gcnt := n\<rparr>
      else s\<lparr>sbuf := [], eofbit := True, gcnt := length (sbuf s)\<rparr>)"

text \<open>\<open>ifsp->read((char*)dst + offs, n)\<close>: the bytes obtained land at \<open>offs\<close>.\<close>

definition read_into :: "byte list \<Rightarrow> nat \<Rightarrow> ifstream \<Rightarrow> nat \<Rightarrow> (byte list \<times> ifstream) res" where
  "read_into dst offs s n =
     (case is_read s n of (got, s') \<Rightarrow> bindE (mem_write dst offs got) (\<lambda>d. Inr (d, s')))"

subsection \<open>The stages of \<open>rcv_decode\<close>\<close>

text \<open>
  Lines 312--327, at \<open>rec_offs == 0\<close>: copy the header in, read \<open>_xidsize\<close> (8 bytes,
  \<open>sizeof(std::size_t)\<close> on a little-endian 64-bit build: the filler branches are
  compiled out), set \<open>rec_offs\<close> and allocate the payload buffer. A short read
  overwrites only the bytes it obtained.
\<close>

definition rcv_hdr ::
  "txn_rec \<Rightarrow> (nat \<Rightarrow> byte list option) \<Rightarrow> rec_hdr_t \<Rightarrow> ifstream \<Rightarrow> (txn_rec \<times> ifstream) res" where
  "rcv_hdr r malloc h s =
     (let r = r\<lparr>txn_hdr := (txn_hdr r)\<lparr>rhdr := h\<rparr>\<rparr>
      in case is_read s 8 of (got, s) \<Rightarrow>
         let r = r\<lparr>txn_hdr := (txn_hdr r)\<lparr>xidsize :=
                      bytes_word (splice (word_bytes 8 (xidsize (txn_hdr r))) 0 got)\<rparr>\<rparr>
         in case malloc (xid_size r) of None \<Rightarrow> Inl JERR__MALLOC
            | Some b \<Rightarrow> Inr (r\<lparr>buff := Some b\<rparr>, s))"

text \<open>
  Lines 337--340 and 353--356: after a short read, \<open>assert(ifsp->eof())\<close>, clear
  \<open>failbit\<close> (keeping the other bits) and \<open>assert(!ifsp->fail() && !ifsp->bad())\<close>.
\<close>

definition rcv_short :: "ifstream \<Rightarrow> ifstream res" where
  "rcv_short s =
     (if \<not> eofbit s then Inl Assert_failed
      else let s = s\<lparr>failbit := False\<rparr>
           in if failbit s \<or> badbit s then Inl Assert_failed else Inr s)"

text \<open>
  The read of one region (payload or tail) into its buffer, lines 332--342 and
  348--358: \<open>rec_offs += gcount()\<close>; the flag is \<open>False\<close> when the call returns
  \<open>false\<close> here.
\<close>

definition rcv_read ::
  "byte list \<Rightarrow> nat \<Rightarrow> ifstream \<Rightarrow> nat \<Rightarrow> nat \<Rightarrow> (bool \<times> byte list \<times> ifstream \<times> nat) res" where
  "rcv_read dst offs s want rec_offs =
     bindE (read_into dst offs s want) (\<lambda>(d, s).
       let size_read = gcnt s;
           rec_offs = trunc 64 (rec_offs + size_read)
       in if size_read < want then bindE (rcv_short s) (\<lambda>s. Inr (False, d, s, rec_offs))
          else Inr (True, d, s, rec_offs))"

text \<open>Lines 328--343: the payload, from where \<open>rec_offs\<close> says it was left.\<close>

definition rcv_xid :: "txn_rec \<Rightarrow> ifstream \<Rightarrow> nat \<Rightarrow> (bool \<times> txn_rec \<times> ifstream \<times> nat) res" where
  "rcv_xid r s rec_offs =
     (let xs = xid_size r
      in if rec_offs < trunc 64 (TXN_HDR_SIZE + xs) then
           (let offs = usub 64 rec_offs TXN_HDR_SIZE
            in case buff r of None \<Rightarrow> Inl Null_pointer
               | Some b \<Rightarrow> bindE (rcv_read b offs s (usub 64 xs offs) rec_offs)
                            (\<lambda>(go, b, s, rec_offs). Inr (go, r\<lparr>buff := Some b\<rparr>, s, rec_offs)))
         else Inr (True, r, s, rec_offs))"

text \<open>Lines 344--359: the tail.\<close>

definition rcv_tail :: "txn_rec \<Rightarrow> ifstream \<Rightarrow> nat \<Rightarrow> (bool \<times> txn_rec \<times> ifstream \<times> nat) res" where
  "rcv_tail r s rec_offs =
     (let xs = xid_size r
      in if rec_offs < trunc 64 (TXN_HDR_SIZE + xs + REC_TAIL_SIZE) then
           (let offs = usub 64 (usub 64 rec_offs TXN_HDR_SIZE) xs
            in bindE (rcv_read (txn_tail r) offs s (usub 64 REC_TAIL_SIZE offs) rec_offs)
                 (\<lambda>(go, t, s, rec_offs). Inr (go, r\<lparr>txn_tail := t\<rparr>, s, rec_offs)))
         else Inr (True, r, s, rec_offs))"

text \<open>
  Lines 360--363: skip the padding to the dblk boundary (a \<open>uint32_t\<close> product less
  a \<open>size_t\<close>), check the tail, \<open>assert(!ifsp->fail() && !ifsp->bad())\<close>.
\<close>

definition rcv_finish :: "txn_rec \<Rightarrow> ifstream \<Rightarrow> nat \<Rightarrow> (bool \<times> txn_rec \<times> ifstream \<times> nat) res" where
  "rcv_finish r s rec_offs =
     (let s = is_ignore s (usub 64 (trunc 32 (rec_size_dblks r * JRNL_DBLK_SIZE)) (rec_size r))
      in bindE (chk_tail (txn_hdr r) (txn_tail r)) (\<lambda>_.
           if failbit s \<or> badbit s then Inl Assert_failed else Inr (True, r, s, rec_offs)))"

definition rcv_decode ::
  "txn_rec \<Rightarrow> (nat \<Rightarrow> byte list option) \<Rightarrow> rec_hdr_t \<Rightarrow> ifstream \<Rightarrow> nat \<Rightarrow>
   (bool \<times> txn_rec \<times> ifstream \<times> nat) res" where
  "rcv_decode r malloc h s rec_offs =
     bindE (if rec_offs = 0 then bindE (rcv_hdr r malloc h s) (\<lambda>(r, s). Inr (r, s, TXN_HDR_SIZE))
            else Inr (r, s, rec_offs))
       (\<lambda>(r, s, rec_offs).
          bindE (rcv_xid r s rec_offs) (\<lambda>(go, r, s, rec_offs).
            if \<not> go then Inr (False, r, s, rec_offs)
            else bindE (rcv_tail r s rec_offs) (\<lambda>(go, r, s, rec_offs).
              if \<not> go then Inr (False, r, s, rec_offs)
              else rcv_finish r s rec_offs)))"

subsection \<open>The stream operations\<close>

lemma is_read_full:
  "good s \<Longrightarrow> sbuf s = ys @ zs \<Longrightarrow> length ys = n \<Longrightarrow>
   is_read s n = (ys, s\<lparr>sbuf := zs, gcnt := n\<rparr>)"
  by (simp add: is_read_def)

lemma is_read_short:
  "good s \<Longrightarrow> length (sbuf s) < n \<Longrightarrow>
   is_read s n = (sbuf s, s\<lparr>sbuf := [], eofbit := True, failbit := True, gcnt := length (sbuf s)\<rparr>)"
  by (simp add: is_read_def)

lemma is_read_not_good:
  "\<not> good s \<Longrightarrow> is_read s n = ([], s\<lparr>failbit := True, gcnt := 0\<rparr>)"
  by (simp add: is_read_def)

lemma rcv_read_full:
  assumes "good s" and "sbuf s = ys @ zs" and "length ys = want" and "offs + want \<le> length dst"
  shows "rcv_read dst offs s want ro =
         Inr (True, splice dst offs ys, s\<lparr>sbuf := zs, gcnt := want\<rparr>, trunc 64 (ro + want))"
  using assms by (simp add: rcv_read_def read_into_def is_read_full mem_write_def)

lemma rcv_read_short:
  assumes "good s" and "length (sbuf s) < want" and "offs + length (sbuf s) \<le> length dst"
  shows "rcv_read dst offs s want ro =
         Inr (False, splice dst offs (sbuf s),
              s\<lparr>sbuf := [], eofbit := True, failbit := False, gcnt := length (sbuf s)\<rparr>,
              trunc 64 (ro + length (sbuf s)))"
proof -
  have "\<not> badbit s" using assms(1) by (simp add: good_def)
  then show ?thesis
    using assms by (simp add: rcv_read_def read_into_def is_read_short mem_write_def rcv_short_def Let_def)
qed

lemma rcv_read_not_good:
  assumes "eofbit s" and "\<not> badbit s" and "0 < want" and "offs \<le> length dst" and "ro < 2 ^ 64"
  shows "rcv_read dst offs s want ro = Inr (False, dst, s\<lparr>failbit := False, gcnt := 0\<rparr>, ro)"
proof -
  have "\<not> good s" using assms(1) by (simp add: good_def)
  then show ?thesis
    using assms by (simp add: rcv_read_def read_into_def is_read_not_good mem_write_def
        rcv_short_def splice_def trunc_id)
qed

lemma good_update [simp]:
  "good (s\<lparr>sbuf := zs, gcnt := n\<rparr>) = good s"
  by (simp add: good_def)

lemma rcv_hdr_full:
  assumes "good s" and "sbuf s = word_bytes 8 xw @ zs" and "malloc (unat xw) = Some b"
  shows "rcv_hdr r malloc h s =
         Inr (r\<lparr>txn_hdr := \<lparr>rhdr = h, xidsize = xw\<rparr>, buff := Some b\<rparr>, s\<lparr>sbuf := zs, gcnt := 8\<rparr>)"
proof -
  have "is_read s 8 = (word_bytes 8 xw, s\<lparr>sbuf := zs, gcnt := 8\<rparr>)"
    using assms by (intro is_read_full) simp_all
  moreover have "splice (word_bytes 8 (xidsize (txn_hdr r))) 0 (word_bytes 8 xw) = word_bytes 8 xw"
    by simp
  ultimately show ?thesis
    using assms by (simp add: rcv_hdr_def xid_size_def)
qed

lemma rcv_xid_full:
  assumes "buff r = Some b" and "length b = xid_size r" and "TXN_HDR_SIZE \<le> ro"
    and "ro < TXN_HDR_SIZE + xid_size r" and "TXN_HDR_SIZE + xid_size r < 2 ^ 32"
    and "good s" and "sbuf s = ys @ zs" and "length ys = TXN_HDR_SIZE + xid_size r - ro"
  shows "rcv_xid r s ro =
         Inr (True, r\<lparr>buff := Some (splice b (ro - TXN_HDR_SIZE) ys)\<rparr>, s\<lparr>sbuf := zs, gcnt := length ys\<rparr>,
              TXN_HDR_SIZE + xid_size r)"
proof -
  let ?o = "ro - TXN_HDR_SIZE" and ?w = "xid_size r - (ro - TXN_HDR_SIZE)"
  have t: "trunc 64 (TXN_HDR_SIZE + xid_size r) = TXN_HDR_SIZE + xid_size r"
    using assms(5) by (intro trunc_id) simp
  have o: "usub 64 ro TXN_HDR_SIZE = ?o" and w: "usub 64 (xid_size r) ?o = ?w"
    using assms(3-5) by (simp_all add: usub64_small)
  have e: "trunc 64 (ro + ?w) = TXN_HDR_SIZE + xid_size r" "?w = length ys"
    using assms(3-5,8) by (simp_all add: trunc_id)
  have rd: "rcv_read b ?o s ?w ro =
            Inr (True, splice b ?o ys, s\<lparr>sbuf := zs, gcnt := length ys\<rparr>, TXN_HDR_SIZE + xid_size r)"
    using rcv_read_full [of s ys zs ?w ?o b ro] assms e by simp
  show ?thesis
    using assms(1,4) by (simp add: rcv_xid_def t o w rd Let_def)
qed

lemma rcv_xid_short:
  assumes "buff r = Some b" and "length b = xid_size r" and "TXN_HDR_SIZE \<le> ro"
    and "ro < TXN_HDR_SIZE + xid_size r" and "TXN_HDR_SIZE + xid_size r < 2 ^ 32"
    and "good s" and "length (sbuf s) < TXN_HDR_SIZE + xid_size r - ro"
  shows "rcv_xid r s ro =
         Inr (False, r\<lparr>buff := Some (splice b (ro - TXN_HDR_SIZE) (sbuf s))\<rparr>,
              s\<lparr>sbuf := [], eofbit := True, failbit := False, gcnt := length (sbuf s)\<rparr>,
              ro + length (sbuf s))"
proof -
  let ?o = "ro - TXN_HDR_SIZE" and ?w = "xid_size r - (ro - TXN_HDR_SIZE)"
  have t: "trunc 64 (TXN_HDR_SIZE + xid_size r) = TXN_HDR_SIZE + xid_size r"
    using assms(5) by (intro trunc_id) simp
  have o: "usub 64 ro TXN_HDR_SIZE = ?o" and w: "usub 64 (xid_size r) ?o = ?w"
    using assms(3-5) by (simp_all add: usub64_small)
  have rd: "rcv_read b ?o s ?w ro =
         Inr (False, splice b ?o (sbuf s), s\<lparr>sbuf := [], eofbit := True, failbit := False,
              gcnt := length (sbuf s)\<rparr>, trunc 64 (ro + length (sbuf s)))"
    using assms by (intro rcv_read_short) simp_all
  have e: "trunc 64 (ro + length (sbuf s)) = ro + length (sbuf s)"
    using assms(3-5,7) by (simp add: trunc_id)
  show ?thesis
    using assms(1,4) by (simp add: rcv_xid_def t o w rd e Let_def)
qed

lemma rcv_xid_skip:
  assumes "TXN_HDR_SIZE + xid_size r \<le> ro" and "TXN_HDR_SIZE + xid_size r < 2 ^ 32"
  shows "rcv_xid r s ro = Inr (True, r, s, ro)"
proof -
  have "trunc 64 (TXN_HDR_SIZE + xid_size r) = TXN_HDR_SIZE + xid_size r"
    using assms(2) by (intro trunc_id) simp
  then show ?thesis
    using assms(1) by (simp add: rcv_xid_def)
qed

lemma rcv_tail_full:
  assumes "length (txn_tail r) = REC_TAIL_SIZE" and "TXN_HDR_SIZE + xid_size r \<le> ro"
    and "ro < TXN_HDR_SIZE + xid_size r + REC_TAIL_SIZE"
    and "TXN_HDR_SIZE + xid_size r + REC_TAIL_SIZE < 2 ^ 32"
    and "good s" and "sbuf s = ys @ zs" and "length ys = TXN_HDR_SIZE + xid_size r + REC_TAIL_SIZE - ro"
  shows "rcv_tail r s ro =
         Inr (True, r\<lparr>txn_tail := splice (txn_tail r) (ro - (TXN_HDR_SIZE + xid_size r)) ys\<rparr>,
              s\<lparr>sbuf := zs, gcnt := length ys\<rparr>, TXN_HDR_SIZE + xid_size r + REC_TAIL_SIZE)"
proof -
  let ?rs = "TXN_HDR_SIZE + xid_size r + REC_TAIL_SIZE"
  let ?o = "ro - (TXN_HDR_SIZE + xid_size r)" and ?w = "REC_TAIL_SIZE - (ro - (TXN_HDR_SIZE + xid_size r))"
  have t: "trunc 64 ?rs = ?rs"
    using assms(4) by (intro trunc_id) simp
  have o: "usub 64 (usub 64 ro TXN_HDR_SIZE) (xid_size r) = ?o" and w: "usub 64 REC_TAIL_SIZE ?o = ?w"
    using assms(2-4) by (simp_all add: usub64_small)
  have e: "trunc 64 (ro + ?w) = ?rs" "?w = length ys"
    using assms(2-4,7) by (simp_all add: trunc_id)
  have rd: "rcv_read (txn_tail r) ?o s ?w ro =
            Inr (True, splice (txn_tail r) ?o ys, s\<lparr>sbuf := zs, gcnt := length ys\<rparr>, ?rs)"
    using rcv_read_full [of s ys zs ?w ?o "txn_tail r" ro] assms e by simp
  show ?thesis
    using assms(3) by (simp add: rcv_tail_def t o w rd Let_def)
qed

lemma rcv_tail_short:
  assumes "length (txn_tail r) = REC_TAIL_SIZE" and "TXN_HDR_SIZE + xid_size r \<le> ro"
    and "ro < TXN_HDR_SIZE + xid_size r + REC_TAIL_SIZE"
    and "TXN_HDR_SIZE + xid_size r + REC_TAIL_SIZE < 2 ^ 32"
    and "good s" and "length (sbuf s) < TXN_HDR_SIZE + xid_size r + REC_TAIL_SIZE - ro"
  shows "rcv_tail r s ro =
         Inr (False, r\<lparr>txn_tail := splice (txn_tail r) (ro - (TXN_HDR_SIZE + xid_size r)) (sbuf s)\<rparr>,
              s\<lparr>sbuf := [], eofbit := True, failbit := False, gcnt := length (sbuf s)\<rparr>,
              ro + length (sbuf s))"
proof -
  let ?rs = "TXN_HDR_SIZE + xid_size r + REC_TAIL_SIZE"
  let ?o = "ro - (TXN_HDR_SIZE + xid_size r)" and ?w = "REC_TAIL_SIZE - (ro - (TXN_HDR_SIZE + xid_size r))"
  have t: "trunc 64 ?rs = ?rs"
    using assms(4) by (intro trunc_id) simp
  have o: "usub 64 (usub 64 ro TXN_HDR_SIZE) (xid_size r) = ?o" and w: "usub 64 REC_TAIL_SIZE ?o = ?w"
    using assms(2-4) by (simp_all add: usub64_small)
  have rd: "rcv_read (txn_tail r) ?o s ?w ro =
         Inr (False, splice (txn_tail r) ?o (sbuf s), s\<lparr>sbuf := [], eofbit := True, failbit := False,
              gcnt := length (sbuf s)\<rparr>, trunc 64 (ro + length (sbuf s)))"
    using assms by (intro rcv_read_short) simp_all
  have e: "trunc 64 (ro + length (sbuf s)) = ro + length (sbuf s)"
    using assms(3,4,6) by (simp add: trunc_id)
  show ?thesis
    using assms(3) by (simp add: rcv_tail_def t o w rd e Let_def)
qed

lemma rcv_finish_eq:
  assumes "dblks_up (TXN_HDR_SIZE + xid_size r + REC_TAIL_SIZE) * JRNL_DBLK_SIZE < 2 ^ 32"
  shows "rcv_finish r s ro =
         (let s = is_ignore s (dblks_up (TXN_HDR_SIZE + xid_size r + REC_TAIL_SIZE) * JRNL_DBLK_SIZE
                               - (TXN_HDR_SIZE + xid_size r + REC_TAIL_SIZE))
          in bindE (chk_tail (txn_hdr r) (txn_tail r)) (\<lambda>_.
               if failbit s \<or> badbit s then Inl Assert_failed else Inr (True, r, s, ro)))"
proof -
  let ?rs = "TXN_HDR_SIZE + xid_size r + REC_TAIL_SIZE"
  have le: "?rs \<le> dblks_up ?rs * JRNL_DBLK_SIZE"
    by (rule dblks_up_ge)
  have rs: "rec_size r = ?rs"
    using le assms by (intro rec_size_exact) simp
  have d: "rec_size_dblks r = dblks_up ?rs"
    using le assms by (simp add: rec_size_dblks_def rs size_dblks_exact)
  have p: "usub 64 (trunc 32 (dblks_up ?rs * JRNL_DBLK_SIZE)) ?rs = dblks_up ?rs * JRNL_DBLK_SIZE - ?rs"
    using le assms by (simp add: trunc_id usub64_small)
  show ?thesis
    by (simp add: rcv_finish_def rs d p)
qed

lemma rcv_xid_whole:
  assumes "buff r = Some b" and "length b = xid_size r" and "TXN_HDR_SIZE + xid_size r < 2 ^ 32"
    and "good s" and "sbuf s = x @ zs" and "length x = xid_size r"
  shows "\<exists>g. rcv_xid r s TXN_HDR_SIZE =
             Inr (True, r\<lparr>buff := Some x\<rparr>, s\<lparr>sbuf := zs, gcnt := g\<rparr>, TXN_HDR_SIZE + xid_size r)"
proof (cases "xid_size r = 0")
  case True
  then have "r\<lparr>buff := Some x\<rparr> = r" "s\<lparr>sbuf := zs, gcnt := gcnt s\<rparr> = s"
    using assms by simp_all
  moreover have "rcv_xid r s TXN_HDR_SIZE = Inr (True, r, s, TXN_HDR_SIZE)"
    using rcv_xid_skip [of r TXN_HDR_SIZE s] True assms(3) by simp
  ultimately show ?thesis
    using True by (intro exI [of _ "gcnt s"]) simp
next
  case False
  then show ?thesis
    using rcv_xid_full [OF assms(1,2) _ _ assms(3,4,5)] assms(2,6) by auto
qed

subsection \<open>Reading stage by stage\<close>

lemma rcv_hdr_short:
  assumes "good s" and "length (sbuf s) < 8"
    and "malloc (unat (bytes_word (splice (word_bytes 8 (xidsize (txn_hdr r))) 0 (sbuf s)) :: u64)) = Some b"
  shows "rcv_hdr r malloc h s =
         Inr (r\<lparr>txn_hdr := \<lparr>rhdr = h, xidsize =
                  bytes_word (splice (word_bytes 8 (xidsize (txn_hdr r))) 0 (sbuf s))\<rparr>, buff := Some b\<rparr>,
              s\<lparr>sbuf := [], eofbit := True, failbit := True, gcnt := length (sbuf s)\<rparr>)"
  using assms by (simp add: rcv_hdr_def is_read_short xid_size_def)

lemma rcv_xid_not_good:
  assumes "buff r = Some b" and "0 < xid_size r" and "TXN_HDR_SIZE + xid_size r < 2 ^ 64"
    and "eofbit s" and "\<not> badbit s"
  shows "rcv_xid r s TXN_HDR_SIZE = Inr (False, r, s\<lparr>failbit := False, gcnt := 0\<rparr>, TXN_HDR_SIZE)"
proof -
  have x: "xid_size r < 2 ^ 64" using assms(3) by linarith
  have w: "usub 64 (xid_size r) 0 = xid_size r"
    using x by (simp add: usub_def trunc_def)
  have rd: "rcv_read b 0 s (xid_size r) TXN_HDR_SIZE =
            Inr (False, b, s\<lparr>failbit := False, gcnt := 0\<rparr>, TXN_HDR_SIZE)"
    using assms by (intro rcv_read_not_good) (simp_all add: TXN_HDR_SIZE_def)
  have "r\<lparr>buff := Some b\<rparr> = r" using assms(1) by simp
  then show ?thesis
    using assms(1-3) rd w by (simp add: rcv_xid_def trunc_id)
qed

lemma rcv_tail_not_good:
  assumes "xid_size r = 0" and "length (txn_tail r) = REC_TAIL_SIZE"
    and "eofbit s" and "\<not> badbit s"
  shows "rcv_tail r s TXN_HDR_SIZE = Inr (False, r, s\<lparr>failbit := False, gcnt := 0\<rparr>, TXN_HDR_SIZE)"
proof -
  have rd: "rcv_read (txn_tail r) 0 s REC_TAIL_SIZE TXN_HDR_SIZE =
            Inr (False, txn_tail r, s\<lparr>failbit := False, gcnt := 0\<rparr>, TXN_HDR_SIZE)"
    using assms by (intro rcv_read_not_good) (simp_all add: TXN_HDR_SIZE_def)
  then show ?thesis
    using assms by (simp add: rcv_tail_def trunc_id TXN_HDR_SIZE_def REC_TAIL_SIZE_def usub_def trunc_def)
qed

lemma rcv_decode_false:
  "rcv_hdr r malloc h s = Inr (r1, s1) \<Longrightarrow> rcv_xid r1 s1 TXN_HDR_SIZE = Inr (False, r2, s2, ro) \<Longrightarrow>
   rcv_decode r malloc h s 0 = Inr (False, r2, s2, ro)"
  by (simp add: rcv_decode_def)

lemma rcv_decode_false_tail:
  "rcv_hdr r malloc h s = Inr (r1, s1) \<Longrightarrow> rcv_xid r1 s1 TXN_HDR_SIZE = Inr (True, r2, s2, ro) \<Longrightarrow>
   rcv_tail r2 s2 ro = Inr (False, r3, s3, ro') \<Longrightarrow>
   rcv_decode r malloc h s 0 = Inr (False, r3, s3, ro')"
  by (simp add: rcv_decode_def)

lemma rcv_decode_whole_record:
  assumes g: "good s" and sb: "sbuf s = word_bytes 8 (xw :: u64) @ x @ t @ zs"
    and lx: "length x = unat xw" and lt: "length t = REC_TAIL_SIZE"
    and al: "malloc (unat xw) = Some b" and lb: "length b = unat xw"
    and T: "length (txn_tail r) = REC_TAIL_SIZE"
    and rs: "TXN_HDR_SIZE + unat xw + REC_TAIL_SIZE < 2 ^ 32"
  shows "rcv_decode r malloc h s 0 =
         rcv_finish (r\<lparr>txn_hdr := \<lparr>rhdr = h, xidsize = xw\<rparr>, buff := Some x, txn_tail := t\<rparr>)
           (s\<lparr>sbuf := zs, gcnt := REC_TAIL_SIZE\<rparr>) (TXN_HDR_SIZE + unat xw + REC_TAIL_SIZE)"
proof -
  let ?rs = "TXN_HDR_SIZE + unat xw + REC_TAIL_SIZE"
  define r1 where "r1 = r\<lparr>txn_hdr := \<lparr>rhdr = h, xidsize = xw\<rparr>, buff := Some b\<rparr>"
  have xs1: "xid_size r1 = unat xw"
    by (simp add: r1_def xid_size_def)
  have hdr: "rcv_hdr r malloc h s = Inr (r1, s\<lparr>sbuf := x @ t @ zs, gcnt := 8\<rparr>)"
    unfolding r1_def using g sb al by (intro rcv_hdr_full) simp_all
  obtain g2 where xid: "rcv_xid r1 (s\<lparr>sbuf := x @ t @ zs, gcnt := 8\<rparr>) TXN_HDR_SIZE =
      Inr (True, r1\<lparr>buff := Some x\<rparr>, s\<lparr>sbuf := t @ zs, gcnt := g2\<rparr>, TXN_HDR_SIZE + unat xw)"
    using rcv_xid_whole [of r1 b "s\<lparr>sbuf := x @ t @ zs, gcnt := 8\<rparr>" x "t @ zs"]
      xs1 lb rs lx g by (auto simp: r1_def)
  define r2 where "r2 = r1\<lparr>buff := Some x\<rparr>"
  have xs2: "xid_size r2 = unat xw" and T2: "length (txn_tail r2) = REC_TAIL_SIZE"
    using T by (simp_all add: r2_def r1_def xid_size_def)
  have tl: "rcv_tail r2 (s\<lparr>sbuf := t @ zs, gcnt := g2\<rparr>) (TXN_HDR_SIZE + unat xw) =
      Inr (True, r2\<lparr>txn_tail := t\<rparr>, s\<lparr>sbuf := zs, gcnt := REC_TAIL_SIZE\<rparr>, ?rs)"
    using rcv_tail_full [OF T2, of "TXN_HDR_SIZE + unat xw" "s\<lparr>sbuf := t @ zs, gcnt := g2\<rparr>" t zs]
      xs2 rs g lt T2 by simp
  have r3: "r2\<lparr>txn_tail := t\<rparr> = r\<lparr>txn_hdr := \<lparr>rhdr = h, xidsize = xw\<rparr>, buff := Some x, txn_tail := t\<rparr>"
    by (simp add: r2_def r1_def)
  show ?thesis
    using hdr xid tl by (simp add: rcv_decode_def r2_def [symmetric] r3)
qed

lemma rcv_finish_ignore:
  assumes "dblks_up (TXN_HDR_SIZE + xid_size r + REC_TAIL_SIZE) * JRNL_DBLK_SIZE < 2 ^ 32"
    and "is_ignore s (dblks_up (TXN_HDR_SIZE + xid_size r + REC_TAIL_SIZE) * JRNL_DBLK_SIZE
                      - (TXN_HDR_SIZE + xid_size r + REC_TAIL_SIZE)) = s'"
    and "\<not> failbit s'" and "\<not> badbit s'"
  shows "rcv_finish r s ro = bindE (chk_tail (txn_hdr r) (txn_tail r)) (\<lambda>_. Inr (True, r, s', ro))"
  using rcv_finish_eq [OF assms(1), of s ro] assms(2-4) by (simp add: Let_def)

lemma rcv_truncated_in_field:
  assumes g: "good s" and ls: "length (sbuf s) < 8"
    and T: "length (txn_tail r) = REC_TAIL_SIZE"
    and al: "\<And>k. \<exists>b. malloc k = Some b \<and> length b = k"
    and old: "unat (xidsize (txn_hdr r)) < 2 ^ 32"
  shows "\<exists>r' s'. rcv_decode r malloc h s 0 = Inr (False, r', s', TXN_HDR_SIZE)"
proof -
  let ?w = "bytes_word (splice (word_bytes 8 (xidsize (txn_hdr r))) 0 (sbuf s)) :: u64"
  have "unat ?w \<le> le_dec (splice (word_bytes 8 (xidsize (txn_hdr r))) 0 (sbuf s))"
    by (simp add: bytes_word_def unat_of_nat)
  moreover have "le_dec (splice (word_bytes 8 (xidsize (txn_hdr r))) 0 (sbuf s)) < 2 ^ 56 + 2 ^ 32"
    unfolding word_bytes_def using ls old by (rule short_read_field_bound)
  ultimately have wb: "TXN_HDR_SIZE + unat ?w < 2 ^ 64"
    by (simp add: TXN_HDR_SIZE_def)
  obtain b where b: "malloc (unat ?w) = Some b" "length b = unat ?w"
    using al by blast
  define r1 where "r1 = r\<lparr>txn_hdr := \<lparr>rhdr = h, xidsize = ?w\<rparr>, buff := Some b\<rparr>"
  define s1 where "s1 = s\<lparr>sbuf := [], eofbit := True, failbit := True, gcnt := length (sbuf s)\<rparr>"
  have hdr: "rcv_hdr r malloc h s = Inr (r1, s1)"
    unfolding r1_def s1_def using g ls b(1) by (rule rcv_hdr_short)
  have x1: "xid_size r1 = unat ?w" by (simp add: r1_def xid_size_def)
  have e1: "eofbit s1" "\<not> badbit s1" using g by (simp_all add: s1_def good_def)
  show ?thesis
  proof (cases "unat ?w = 0")
    case True
    have "rcv_xid r1 s1 TXN_HDR_SIZE = Inr (True, r1, s1, TXN_HDR_SIZE)"
      using rcv_xid_skip [of r1 TXN_HDR_SIZE s1] x1 True by (simp add: TXN_HDR_SIZE_def)
    moreover have "rcv_tail r1 s1 TXN_HDR_SIZE =
                   Inr (False, r1, s1\<lparr>failbit := False, gcnt := 0\<rparr>, TXN_HDR_SIZE)"
      using x1 True T e1 by (intro rcv_tail_not_good) (simp_all add: r1_def)
    ultimately show ?thesis
      using hdr rcv_decode_false_tail by blast
  next
    case False
    have "rcv_xid r1 s1 TXN_HDR_SIZE = Inr (False, r1, s1\<lparr>failbit := False, gcnt := 0\<rparr>, TXN_HDR_SIZE)"
      using x1 False wb e1 by (intro rcv_xid_not_good) (simp_all add: r1_def)
    then show ?thesis
      using hdr rcv_decode_false by blast
  qed
qed

lemma rcv_cut_in_xid:
  assumes g: "good s" and sb: "sbuf s = word_bytes 8 (xw :: u64) @ y" and ly: "length y < unat xw"
    and b: "malloc (unat xw) = Some b" "length b = unat xw"
    and bnd: "TXN_HDR_SIZE + unat xw + REC_TAIL_SIZE < 2 ^ 32"
  shows "rcv_decode r malloc h s 0 =
         Inr (False, r\<lparr>txn_hdr := \<lparr>rhdr = h, xidsize = xw\<rparr>, buff := Some (splice b 0 y)\<rparr>,
              s\<lparr>sbuf := [], eofbit := True, failbit := False, gcnt := length y\<rparr>, TXN_HDR_SIZE + length y)"
proof -
  define r1 where "r1 = r\<lparr>txn_hdr := \<lparr>rhdr = h, xidsize = xw\<rparr>, buff := Some b\<rparr>"
  define s1 where "s1 = s\<lparr>sbuf := y, gcnt := 8\<rparr>"
  have hdr: "rcv_hdr r malloc h s = Inr (r1, s1)"
    unfolding r1_def s1_def using g sb b(1) by (rule rcv_hdr_full)
  have x1: "xid_size r1 = unat xw" by (simp add: r1_def xid_size_def)
  have "rcv_xid r1 s1 TXN_HDR_SIZE =
        Inr (False, r1\<lparr>buff := Some (splice b 0 y)\<rparr>,
             s1\<lparr>sbuf := [], eofbit := True, failbit := False, gcnt := length y\<rparr>, TXN_HDR_SIZE + length y)"
    using rcv_xid_short [of r1 b TXN_HDR_SIZE s1] x1 b bnd g ly by (simp add: r1_def s1_def)
  then show ?thesis
    using rcv_decode_false [OF hdr] by (simp add: r1_def s1_def)
qed


lemma rcv_truncated_in_xid:
  assumes g: "good s" and sb: "sbuf s = word_bytes 8 (xw :: u64) @ y" and ly: "length y < unat xw"
    and al: "\<And>k. \<exists>b. malloc k = Some b \<and> length b = k"
    and bnd: "TXN_HDR_SIZE + unat xw + REC_TAIL_SIZE < 2 ^ 32"
  shows "\<exists>r' s'. rcv_decode r malloc h s 0 = Inr (False, r', s', TXN_HDR_SIZE + length y)"
proof -
  obtain b where b: "malloc (unat xw) = Some b" "length b = unat xw"
    using al by blast
  show ?thesis
    using rcv_cut_in_xid [where r = r and h = h and malloc = malloc, OF g sb ly b bnd] by blast
qed
lemma rcv_cut_in_tail:
  assumes g: "good s" and sb: "sbuf s = word_bytes 8 (xw :: u64) @ x @ y"
    and lx: "length x = unat xw" and ly: "length y < REC_TAIL_SIZE"
    and T: "length (txn_tail r) = REC_TAIL_SIZE"
    and b: "malloc (unat xw) = Some b" "length b = unat xw"
    and bnd: "TXN_HDR_SIZE + unat xw + REC_TAIL_SIZE < 2 ^ 32"
  shows "rcv_decode r malloc h s 0 =
         Inr (False, r\<lparr>txn_hdr := \<lparr>rhdr = h, xidsize = xw\<rparr>, buff := Some x,
                        txn_tail := splice (txn_tail r) 0 y\<rparr>,
              s\<lparr>sbuf := [], eofbit := True, failbit := False, gcnt := length y\<rparr>,
              TXN_HDR_SIZE + unat xw + length y)"
proof -
  define r1 where "r1 = r\<lparr>txn_hdr := \<lparr>rhdr = h, xidsize = xw\<rparr>, buff := Some b\<rparr>"
  define s1 where "s1 = s\<lparr>sbuf := x @ y, gcnt := 8\<rparr>"
  have hdr: "rcv_hdr r malloc h s = Inr (r1, s1)"
    unfolding r1_def s1_def using g sb b(1) by (rule rcv_hdr_full)
  have x1: "xid_size r1 = unat xw" by (simp add: r1_def xid_size_def)
  obtain g2 where xd: "rcv_xid r1 s1 TXN_HDR_SIZE =
      Inr (True, r1\<lparr>buff := Some x\<rparr>, s1\<lparr>sbuf := y, gcnt := g2\<rparr>, TXN_HDR_SIZE + unat xw)"
    using rcv_xid_whole [of r1 b s1 x y] x1 b bnd g lx by (auto simp: r1_def s1_def)
  define r2 where "r2 = r1\<lparr>buff := Some x\<rparr>"
  have x2: "xid_size r2 = unat xw" and T2: "length (txn_tail r2) = REC_TAIL_SIZE"
    using T by (simp_all add: r2_def r1_def xid_size_def)
  have "rcv_tail r2 (s1\<lparr>sbuf := y, gcnt := g2\<rparr>) (TXN_HDR_SIZE + unat xw) =
        Inr (False, r2\<lparr>txn_tail := splice (txn_tail r2) 0 y\<rparr>,
             s1\<lparr>sbuf := [], eofbit := True, failbit := False, gcnt := length y\<rparr>,
             TXN_HDR_SIZE + unat xw + length y)"
    using rcv_tail_short [OF T2, of "TXN_HDR_SIZE + unat xw" "s1\<lparr>sbuf := y, gcnt := g2\<rparr>"] x2 bnd g ly
    by (simp add: s1_def)
  then show ?thesis
    using rcv_decode_false_tail [OF hdr] xd by (simp add: r2_def r1_def s1_def)
qed


lemma rcv_truncated_in_tail:
  assumes g: "good s" and sb: "sbuf s = word_bytes 8 (xw :: u64) @ x @ y"
    and lx: "length x = unat xw" and ly: "length y < REC_TAIL_SIZE"
    and T: "length (txn_tail r) = REC_TAIL_SIZE"
    and al: "\<And>k. \<exists>b. malloc k = Some b \<and> length b = k"
    and bnd: "TXN_HDR_SIZE + unat xw + REC_TAIL_SIZE < 2 ^ 32"
  shows "\<exists>r' s'. rcv_decode r malloc h s 0 = Inr (False, r', s', TXN_HDR_SIZE + unat xw + length y)"
proof -
  obtain b where b: "malloc (unat xw) = Some b" "length b = unat xw"
    using al by blast
  show ?thesis
    using rcv_cut_in_tail [where h = h and malloc = malloc, OF g sb lx ly T b bnd] by blast
qed
subsection \<open>Recovery of whole, truncated and short-padded records\<close>

text \<open>
  C7. Recovery of a whole record: when the stream holds the rest of a record after its
  \<open>rec_hdr_t\<close> (the 8-byte \<open>xidsize\<close> field, the payload, the tail) and the padding to
  the next dblk boundary, \<open>rcv_decode\<close> at \<open>rec_offs = 0\<close> installs the caller's header
  and the read \<open>xidsize\<close>, fills the allocated buffer with the payload and the tail
  object with the tail, skips exactly the padding, and then either throws the tail
  check's error or returns \<open>true\<close> with \<open>rec_offs = rec_size()\<close>. The header \<open>h\<close>
  is not checked.
\<close>

theorem rcv_decode_complete:
  assumes g: "good s" and sb: "sbuf s = word_bytes 8 (xw :: u64) @ x @ t @ pad @ zs"
    and lx: "length x = unat xw" and lt: "length t = REC_TAIL_SIZE"
    and al: "malloc (unat xw) = Some b" and lb: "length b = unat xw"
    and T: "length (txn_tail r) = REC_TAIL_SIZE"
    and bnd: "dblks_up (TXN_HDR_SIZE + unat xw + REC_TAIL_SIZE) * JRNL_DBLK_SIZE < 2 ^ 32"
    and lp: "length pad = dblks_up (TXN_HDR_SIZE + unat xw + REC_TAIL_SIZE) * JRNL_DBLK_SIZE
                          - (TXN_HDR_SIZE + unat xw + REC_TAIL_SIZE)"
  shows "rcv_decode r malloc h s 0 =
         (let r' = r\<lparr>txn_hdr := \<lparr>rhdr = h, xidsize = xw\<rparr>, buff := Some x, txn_tail := t\<rparr>
          in bindE (chk_tail (txn_hdr r') t)
               (\<lambda>_. Inr (True, r', s\<lparr>sbuf := zs, gcnt := length pad\<rparr>,
                          TXN_HDR_SIZE + unat xw + REC_TAIL_SIZE)))"
proof -
  let ?rs = "TXN_HDR_SIZE + unat xw + REC_TAIL_SIZE"
  let ?r' = "r\<lparr>txn_hdr := \<lparr>rhdr = h, xidsize = xw\<rparr>, buff := Some x, txn_tail := t\<rparr>"
  have rs: "?rs < 2 ^ 32"
    using dblks_up_ge [of ?rs] bnd by linarith
  have x': "xid_size ?r' = unat xw" by (simp add: xid_size_def)
  have ig: "is_ignore (s\<lparr>sbuf := pad @ zs, gcnt := REC_TAIL_SIZE\<rparr>) (length pad) =
            s\<lparr>sbuf := zs, gcnt := length pad\<rparr>"
    using g by (simp add: is_ignore_def)
  have "rcv_finish ?r' (s\<lparr>sbuf := pad @ zs, gcnt := REC_TAIL_SIZE\<rparr>) ?rs =
        bindE (chk_tail (txn_hdr ?r') (txn_tail ?r')) (\<lambda>_. Inr (True, ?r', s\<lparr>sbuf := zs, gcnt := length pad\<rparr>, ?rs))"
    using g ig lp bnd x' by (intro rcv_finish_ignore) (simp_all add: good_def)
  then show ?thesis
    using rcv_decode_whole_record [where malloc = malloc and h = h and zs = "pad @ zs", OF g _ lx lt al lb T rs] sb by (simp add: Let_def)
qed

theorem rcv_decode_complete_witness:
  "let h = \<lparr>magic = 0x12345678, version = QLS_JRNL_VERSION, uflag = 0, rid = 7\<rparr>;
       t = rec_tail_init (NOT 0x12345678) 0 7;
       s = \<lparr>sbuf = word_bytes 8 (4::u64) @ [1, 2, 3, 4] @ t @ replicate 84 0, eofbit = False,
            failbit = False, badbit = False, gcnt = 0\<rparr>
   in rcv_decode txn_rec_default (\<lambda>n. Some (replicate n 0)) h s 0 =
      Inr (True, txn_rec_default\<lparr>txn_hdr := \<lparr>rhdr = h, xidsize = 4\<rparr>, buff := Some [1, 2, 3, 4], txn_tail := t\<rparr>,
           s\<lparr>sbuf := [], gcnt := 84\<rparr>, 44)"
proof -
  let ?h = "\<lparr>magic = 0x12345678, version = QLS_JRNL_VERSION, uflag = 0, rid = 7\<rparr> :: rec_hdr_t"
  let ?t = "rec_tail_init (NOT 0x12345678) 0 7"
  let ?s = "\<lparr>sbuf = word_bytes 8 (4::u64) @ [1, 2, 3, 4] @ ?t @ replicate 84 0, eofbit = False,
            failbit = False, badbit = False, gcnt = 0\<rparr>"
  have g: "good ?s" by (simp add: good_def)
  have T: "length (txn_tail txn_rec_default) = REC_TAIL_SIZE"
    by (simp add: txn_rec_default_def)
  have th: "rcv_decode txn_rec_default (\<lambda>n. Some (replicate n 0)) ?h ?s 0 =
     (let r' = txn_rec_default\<lparr>txn_hdr := \<lparr>rhdr = ?h, xidsize = 4\<rparr>, buff := Some [1, 2, 3, 4], txn_tail := ?t\<rparr>
      in bindE (chk_tail (txn_hdr r') ?t)
           (\<lambda>_. Inr (True, r', ?s\<lparr>sbuf := [], gcnt := length (replicate 84 (0::byte))\<rparr>, 44)))"
    using rcv_decode_complete [where s = ?s and xw = 4 and x = "[1, 2, 3, 4]" and t = ?t
        and pad = "replicate 84 0" and zs = "[]" and malloc = "\<lambda>n. Some (replicate n 0)"
        and b = "replicate 4 0" and r = txn_rec_default and h = ?h, OF g _ _ _ _ _ T]
    by (simp add: JRNL_DBLK_SIZE_def TXN_HDR_SIZE_def REC_TAIL_SIZE_def dblks_up_def)
  have ck: "chk_tail \<lparr>rhdr = ?h, xidsize = 4\<rparr> ?t = Inr ()"
    by (simp add: chk_tail_def jrec_chk_tail_def)
  show ?thesis
    using th ck by (simp add: Let_def)
qed

text \<open>
  C8. Recovery of a truncated record: when the stream ends before the record's last
  byte, \<open>rcv_decode\<close> returns \<open>false\<close> (incomplete) and never an error, provided
  the allocator does not fail. The returned \<open>rec_offs\<close> counts the bytes obtained
  from the record start, except when the stream ends inside the 8-byte \<open>xidsize\<close>
  field: then it is \<open>sizeof(txn_hdr_t)\<close> although fewer bytes were read.
\<close>

theorem rcv_decode_truncated:
  assumes g: "good s" and sb: "sbuf s = take n (word_bytes 8 (xw :: u64) @ x @ t)"
    and n: "n < 8 + unat xw + REC_TAIL_SIZE"
    and lx: "length x = unat xw" and lt: "length t = REC_TAIL_SIZE"
    and T: "length (txn_tail r) = REC_TAIL_SIZE"
    and al: "\<And>k. \<exists>b. malloc k = Some b \<and> length b = k"
    and bnd: "TXN_HDR_SIZE + unat xw + REC_TAIL_SIZE < 2 ^ 32"
    and old: "unat (xidsize (txn_hdr r)) < 2 ^ 32"
  shows "\<exists>r' s'. rcv_decode r malloc h s 0 =
           Inr (False, r', s', if n < 8 then TXN_HDR_SIZE else REC_HDR_SIZE + n)"
proof -
  consider (field) "n < 8" | (xid) "8 \<le> n" "n < 8 + unat xw" | (tail) "8 + unat xw \<le> n"
    by linarith
  then show ?thesis
  proof cases
    case field
    then show ?thesis
      using rcv_truncated_in_field [OF g _ T al old] sb by simp
  next
    case xid
    have "sbuf s = word_bytes 8 xw @ take (n - 8) x" and "length (take (n - 8) x) < unat xw"
      using sb xid lx by (simp_all add: take_append)
    moreover have "TXN_HDR_SIZE + length (take (n - 8) x) = REC_HDR_SIZE + n"
      using xid lx by (simp add: TXN_HDR_SIZE_def REC_HDR_SIZE_def)
    ultimately show ?thesis
      using rcv_truncated_in_xid [OF g _ _ al bnd] xid by fastforce
  next
    case tail
    have "sbuf s = word_bytes 8 xw @ x @ take (n - 8 - unat xw) t"
      and "length (take (n - 8 - unat xw) t) < REC_TAIL_SIZE"
      using sb tail n lx lt by (simp_all add: take_append)
    moreover have "TXN_HDR_SIZE + unat xw + length (take (n - 8 - unat xw) t) = REC_HDR_SIZE + n"
      using tail n lt by (simp add: TXN_HDR_SIZE_def REC_HDR_SIZE_def)
    ultimately show ?thesis
      using rcv_truncated_in_tail [OF g _ lx _ T al bnd] tail by fastforce
  qed
qed

theorem rcv_decode_truncated_witness:
  "\<exists>r' s'. rcv_decode txn_rec_default (\<lambda>n. Some (replicate n 0)) (rhdr (txn_hdr txn_rec_default))
      \<lparr>sbuf = take 5 (word_bytes 8 (4::u64) @ [1, 2, 3, 4] @ rec_tail_init 0 0 0), eofbit = False,
       failbit = False, badbit = False, gcnt = 0\<rparr> 0 = Inr (False, r', s', TXN_HDR_SIZE)"
proof -
  let ?s = "\<lparr>sbuf = take 5 (word_bytes 8 (4::u64) @ [1, 2, 3, 4] @ rec_tail_init 0 0 0), eofbit = False,
       failbit = False, badbit = False, gcnt = 0\<rparr>"
  have g: "good ?s" by (simp add: good_def)
  have T: "length (txn_tail txn_rec_default) = REC_TAIL_SIZE"
    by (simp add: txn_rec_default_def)
  have o: "unat (xidsize (txn_hdr txn_rec_default)) < 2 ^ 32"
    by (simp add: txn_rec_default_def txn_hdr_init_def)
  have al: "\<And>k. \<exists>b. Some (replicate k (0::byte)) = Some b \<and> length b = k"
    by simp
  show ?thesis
    using rcv_decode_truncated [where s = ?s and n = 5 and xw = 4 and x = "[1, 2, 3, 4]"
        and t = "rec_tail_init 0 0 0" and r = txn_rec_default and h = "rhdr (txn_hdr txn_rec_default)"
        and malloc = "\<lambda>n. Some (replicate n 0)",
        OF g _ _ _ _ T al _ o]
    by (simp add: TXN_HDR_SIZE_def REC_TAIL_SIZE_def)
qed

text \<open>
  C9. Truncated padding: when the stream holds the whole record but ends inside the
  padding to the next dblk boundary, \<open>ignore\<close> sets only \<open>eofbit\<close>, so
  \<open>rcv_decode\<close> still checks the tail and returns \<open>true\<close>, leaving the stream at
  end of file.
\<close>

theorem rcv_decode_short_padding:
  assumes g: "good s" and sb: "sbuf s = word_bytes 8 (xw :: u64) @ x @ t @ p"
    and lx: "length x = unat xw" and lt: "length t = REC_TAIL_SIZE"
    and al: "malloc (unat xw) = Some b" and lb: "length b = unat xw"
    and T: "length (txn_tail r) = REC_TAIL_SIZE"
    and bnd: "dblks_up (TXN_HDR_SIZE + unat xw + REC_TAIL_SIZE) * JRNL_DBLK_SIZE < 2 ^ 32"
    and short: "length p < dblks_up (TXN_HDR_SIZE + unat xw + REC_TAIL_SIZE) * JRNL_DBLK_SIZE
                           - (TXN_HDR_SIZE + unat xw + REC_TAIL_SIZE)"
  shows "rcv_decode r malloc h s 0 =
         (let r' = r\<lparr>txn_hdr := \<lparr>rhdr = h, xidsize = xw\<rparr>, buff := Some x, txn_tail := t\<rparr>
          in bindE (chk_tail (txn_hdr r') t)
               (\<lambda>_. Inr (True, r', s\<lparr>sbuf := [], eofbit := True, gcnt := length p\<rparr>,
                          TXN_HDR_SIZE + unat xw + REC_TAIL_SIZE)))"
proof -
  let ?rs = "TXN_HDR_SIZE + unat xw + REC_TAIL_SIZE"
  let ?r' = "r\<lparr>txn_hdr := \<lparr>rhdr = h, xidsize = xw\<rparr>, buff := Some x, txn_tail := t\<rparr>"
  have rs: "?rs < 2 ^ 32"
    using dblks_up_ge [of ?rs] bnd by linarith
  have x': "xid_size ?r' = unat xw" by (simp add: xid_size_def)
  have ig: "is_ignore (s\<lparr>sbuf := p, gcnt := REC_TAIL_SIZE\<rparr>) (dblks_up ?rs * JRNL_DBLK_SIZE - ?rs) =
            s\<lparr>sbuf := [], eofbit := True, gcnt := length p\<rparr>"
    using g short by (simp add: is_ignore_def)
  have "rcv_finish ?r' (s\<lparr>sbuf := p, gcnt := REC_TAIL_SIZE\<rparr>) ?rs =
        bindE (chk_tail (txn_hdr ?r') (txn_tail ?r'))
          (\<lambda>_. Inr (True, ?r', s\<lparr>sbuf := [], eofbit := True, gcnt := length p\<rparr>, ?rs))"
    using g ig bnd x' by (intro rcv_finish_ignore) (simp_all add: good_def)
  then show ?thesis
    using rcv_decode_whole_record [where malloc = malloc and h = h and zs = p, OF g _ lx lt al lb T rs] sb by (simp add: Let_def)
qed

theorem rcv_decode_short_padding_witness:
  "let h = \<lparr>magic = QLS_TXC_MAGIC, version = QLS_JRNL_VERSION, uflag = 0, rid = 7\<rparr>;
       t = rec_tail_init (NOT QLS_TXC_MAGIC) 0 7;
       s = \<lparr>sbuf = word_bytes 8 (4::u64) @ [1, 2, 3, 4] @ t @ replicate 10 0, eofbit = False,
            failbit = False, badbit = False, gcnt = 0\<rparr>
   in rcv_decode txn_rec_default (\<lambda>n. Some (replicate n 0)) h s 0 =
      Inr (True, txn_rec_default\<lparr>txn_hdr := \<lparr>rhdr = h, xidsize = 4\<rparr>, buff := Some [1, 2, 3, 4], txn_tail := t\<rparr>,
           s\<lparr>sbuf := [], eofbit := True, gcnt := 10\<rparr>, 44)"
proof -
  let ?h = "\<lparr>magic = QLS_TXC_MAGIC, version = QLS_JRNL_VERSION, uflag = 0, rid = 7\<rparr> :: rec_hdr_t"
  let ?t = "rec_tail_init (NOT QLS_TXC_MAGIC) 0 7"
  let ?s = "\<lparr>sbuf = word_bytes 8 (4::u64) @ [1, 2, 3, 4] @ ?t @ replicate 10 0, eofbit = False,
            failbit = False, badbit = False, gcnt = 0\<rparr>"
  have g: "good ?s" by (simp add: good_def)
  have T: "length (txn_tail txn_rec_default) = REC_TAIL_SIZE"
    by (simp add: txn_rec_default_def)
  have th: "rcv_decode txn_rec_default (\<lambda>n. Some (replicate n 0)) ?h ?s 0 =
     (let r' = txn_rec_default\<lparr>txn_hdr := \<lparr>rhdr = ?h, xidsize = 4\<rparr>, buff := Some [1, 2, 3, 4], txn_tail := ?t\<rparr>
      in bindE (chk_tail (txn_hdr r') ?t)
           (\<lambda>_. Inr (True, r', ?s\<lparr>sbuf := [], eofbit := True, gcnt := length (replicate 10 (0::byte))\<rparr>, 44)))"
    using rcv_decode_short_padding [where s = ?s and xw = 4 and x = "[1, 2, 3, 4]" and t = ?t
        and p = "replicate 10 0" and malloc = "\<lambda>n. Some (replicate n 0)"
        and b = "replicate 4 0" and r = txn_rec_default and h = ?h, OF g _ _ _ _ _ T]
    by (simp add: JRNL_DBLK_SIZE_def TXN_HDR_SIZE_def REC_TAIL_SIZE_def dblks_up_def)
  have ck: "chk_tail \<lparr>rhdr = ?h, xidsize = 4\<rparr> ?t = Inr ()"
    by (simp add: chk_tail_def jrec_chk_tail_def)
  show ?thesis
    using th ck by (simp add: Let_def)
qed

end
