(* ===== verification/Integrity.thy ===== *)
theory Integrity
  imports RoundTrip Recover
begin

text \<open>
  The tail check as corruption detection. \<open>flip_bit t i j\<close> flips bit \<open>j\<close> of byte
  \<open>i\<close> of a tail; the theorems show that both read paths, \<open>decode\<close> on a page and
  \<open>rcv_decode\<close> on a stream, turn such a tail into \<open>JERR_JREC_BADRECTAIL\<close> when the bit
  is in the complemented magic or the record id.
\<close>

unbundle bit_operations_syntax

definition flip_bit :: "byte list \<Rightarrow> nat \<Rightarrow> nat \<Rightarrow> byte list" where
  "flip_bit t i j = t[i := t ! i XOR push_bit j 1]"

subsection \<open>Facts: a flipped bit changes its field\<close>

lemma flip_bit_field:
  assumes "j < 8" and "a \<le> i" and "i < a + n" and "a + n \<le> length t"
  shows "take n (drop a (flip_bit t i j)) \<noteq> take n (drop a t)"
proof
  assume eq: "take n (drop a (flip_bit t i j)) = take n (drop a t)"
  have "take n (drop a (flip_bit t i j)) ! (i - a) = flip_bit t i j ! i"
    "take n (drop a t) ! (i - a) = t ! i"
    using assms by (simp_all add: flip_bit_def)
  then have "flip_bit t i j ! i = t ! i" using eq by simp
  then show False
    using assms xor_bit_ne [of j "t ! i"] by (simp add: flip_bit_def)
qed

lemma chk_tail_flip:
  assumes ok: "chk_tail th t = Inr ()" and lt: "length t = REC_TAIL_SIZE" and j: "j < 8"
    and i: "i < 4 \<or> 8 \<le> i \<and> i < 16"
  shows "chk_tail th (flip_bit t i j) = Inl JERR_JREC_BADRECTAIL"
proof -
  have lf: "length (flip_bit t i j) = REC_TAIL_SIZE"
    using lt by (simp add: flip_bit_def)
  have "tail_xmagic (flip_bit t i j) \<noteq> tail_xmagic t \<or> tail_rid (flip_bit t i j) \<noteq> tail_rid t"
    using i
  proof
    assume "i < 4"
    then have "take 4 (drop 0 (flip_bit t i j)) \<noteq> take 4 (drop 0 t)"
      using j lt by (intro flip_bit_field) (simp_all add: REC_TAIL_SIZE_def)
    then show ?thesis
      using bytes_word_inj [where 'a = 32 and n = 4, of "take 4 (flip_bit t i j)" "take 4 t"] lf lt
      by (auto simp: tail_xmagic_def REC_TAIL_SIZE_def)
  next
    assume "8 \<le> i \<and> i < 16"
    then have "take 8 (drop 8 (flip_bit t i j)) \<noteq> take 8 (drop 8 t)"
      using j lt by (intro flip_bit_field) (simp_all add: REC_TAIL_SIZE_def)
    then show ?thesis
      using bytes_word_inj [where 'a = 64 and n = 8, of "take 8 (drop 8 (flip_bit t i j))" "take 8 (drop 8 t)"] lf lt
      by (auto simp: tail_rid_def REC_TAIL_SIZE_def)
  qed
  then show ?thesis
    using ok by (auto simp: chk_tail_def jrec_chk_tail_def split: if_splits)
qed

subsection \<open>Facts: a record read whole from one page\<close>

lemma with_image_whole:
  assumes r0: "buff r0 = Some b" "length b = xid_size r0" "length (txn_tail r0) = REC_TAIL_SIZE"
    and lx: "length x = xid_size r0" and lt: "length t = REC_TAIL_SIZE"
  shows "with_image r0 (splice (dec_image r0) TXN_HDR_SIZE (x @ t)) = r0\<lparr>buff := Some x, txn_tail := t\<rparr>"
  using assms by (simp add: with_image_def dec_image_def splice_def)

lemma decode_first_page_tail:
  assumes hd: "chk_hdr \<lparr>rhdr = h, xidsize = xw\<rparr> = Inr u"
    and pg: "page = txn_hdr_bytes \<lparr>rhdr = h, xidsize = xw\<rparr> @ x @ t @ rest"
    and lx: "length x = unat xw" and lt: "length t = REC_TAIL_SIZE"
    and al: "malloc (unat xw) = Some b" and lb: "length b = unat xw"
    and T: "length (txn_tail r) = REC_TAIL_SIZE"
    and bnd: "TXN_HDR_SIZE + unat xw + REC_TAIL_SIZE < 2 ^ 32"
    and fits: "TXN_HDR_SIZE + unat xw + REC_TAIL_SIZE \<le> m * JRNL_DBLK_SIZE"
  shows "decode_first r malloc h page m =
         bindE (chk_tail \<lparr>rhdr = h, xidsize = xw\<rparr> t)
           (\<lambda>_. Inr (r\<lparr>txn_hdr := \<lparr>rhdr = h, xidsize = xw\<rparr>, buff := Some x, txn_tail := t\<rparr>,
                     TXN_HDR_SIZE + unat xw + REC_TAIL_SIZE))"
proof -
  define r0 where "r0 = r\<lparr>txn_hdr := \<lparr>rhdr = h, xidsize = xw\<rparr>, buff := Some b\<rparr>"
  have xw: "bytes_word (take 8 (drop REC_HDR_SIZE page)) = xw"
    using txn_hdr_bytes_xidsize [of "\<lparr>rhdr = h, xidsize = xw\<rparr>" "x @ t @ rest"] pg by simp
  have xs0: "xid_size r0 = unat xw"
    by (simp add: r0_def xid_size_def)
  have tk: "take (TXN_HDR_SIZE + unat xw + REC_TAIL_SIZE - TXN_HDR_SIZE) (drop TXN_HDR_SIZE page) = x @ t"
    using pg lx lt by simp
  have "with_image r0 (splice (dec_image r0) TXN_HDR_SIZE (x @ t)) = r0\<lparr>buff := Some x, txn_tail := t\<rparr>"
    using T lb lx lt xs0 by (intro with_image_whole) (simp_all add: r0_def)
  moreover have "TXN_HDR_SIZE + unat xw + REC_TAIL_SIZE \<le> length page"
    using pg lx lt by simp
  ultimately show ?thesis
    using decode_first_complete [where malloc = malloc, OF xw hd al lb r0_def T bnd fits] tk
    by (simp add: Let_def check_tail_def r0_def bindE_assoc)
qed

subsection \<open>Corruption detection\<close>

text \<open>
  C14. Corruption detection by \<open>decode\<close>: a record that fits its page, with a valid
  header and a tail that matched it before one bit of the tail's complemented magic
  (bytes 0--3) or record id (bytes 8--15) was flipped, makes \<open>decode\<close> throw
  \<open>JERR_JREC_BADRECTAIL\<close>; it never returns the record.
\<close>

theorem decode_detects_tail_flip:
  assumes hd: "chk_hdr \<lparr>rhdr = h, xidsize = xw\<rparr> = Inr ()"
    and ok: "chk_tail \<lparr>rhdr = h, xidsize = xw\<rparr> t = Inr ()" and lt: "length t = REC_TAIL_SIZE"
    and ij: "j < 8" "i < 4 \<or> 8 \<le> i \<and> i < 16"
    and pg: "page = txn_hdr_bytes \<lparr>rhdr = h, xidsize = xw\<rparr> @ x @ flip_bit t i j @ rest"
    and lx: "length x = unat xw"
    and al: "malloc (unat xw) = Some b" and lb: "length b = unat xw"
    and T: "length (txn_tail r) = REC_TAIL_SIZE"
    and bnd: "TXN_HDR_SIZE + unat xw + REC_TAIL_SIZE < 2 ^ 32"
    and fits: "TXN_HDR_SIZE + unat xw + REC_TAIL_SIZE \<le> m * JRNL_DBLK_SIZE" and m: "0 < m"
  shows "decode r malloc h (Some page) 0 m = Inl JERR_JREC_BADRECTAIL"
proof -
  have "length (flip_bit t i j) = REC_TAIL_SIZE"
    using lt by (simp add: flip_bit_def)
  then have "decode_first r malloc h page m = Inl JERR_JREC_BADRECTAIL"
    using decode_first_page_tail [where malloc = malloc, OF hd pg lx _ al lb T bnd fits]
      chk_tail_flip [OF ok lt ij] by simp
  then show ?thesis
    using m by (simp add: decode_def)
qed

text \<open>
  C15. Corruption detection by \<open>rcv_decode\<close>: on a stream holding a record's xid size,
  payload and a tail with one bit of its complemented magic or record id flipped,
  \<open>rcv_decode\<close> from the record start throws \<open>JERR_JREC_BADRECTAIL\<close>, whatever follows
  the tail in the file (padding present, cut short or absent).
\<close>

theorem rcv_decode_detects_tail_flip:
  assumes g: "good s"
    and ok: "chk_tail \<lparr>rhdr = h, xidsize = xw\<rparr> t = Inr ()" and lt: "length t = REC_TAIL_SIZE"
    and ij: "j < 8" "i < 4 \<or> 8 \<le> i \<and> i < 16"
    and sb: "sbuf s = word_bytes 8 xw @ x @ flip_bit t i j @ zs"
    and lx: "length x = unat xw"
    and al: "malloc (unat xw) = Some b" and lb: "length b = unat xw"
    and T: "length (txn_tail r) = REC_TAIL_SIZE"
    and rs: "TXN_HDR_SIZE + unat xw + REC_TAIL_SIZE < 2 ^ 32"
  shows "rcv_decode r malloc h s 0 = Inl JERR_JREC_BADRECTAIL"
proof -
  have "length (flip_bit t i j) = REC_TAIL_SIZE"
    using lt by (simp add: flip_bit_def)
  then show ?thesis
    using rcv_decode_whole_record [where malloc = malloc and h = h, OF g sb lx _ al lb T rs]
      chk_tail_flip [OF ok lt ij] by (simp add: rcv_finish_def Let_def)
qed

theorem decode_detects_tail_flip_witness:
  "let h = \<lparr>magic = QLS_TXC_MAGIC, version = QLS_JRNL_VERSION, uflag = 0, rid = 7\<rparr>;
       pg = txn_hdr_bytes \<lparr>rhdr = h, xidsize = 3\<rparr> @ [1, 2, 3] @ flip_bit (rec_tail_copy h 0) 9 0
   in decode txn_rec_default (\<lambda>n. Some (replicate n 0)) h (Some pg) 0 1 = Inl JERR_JREC_BADRECTAIL"
proof -
  let ?h = "\<lparr>magic = QLS_TXC_MAGIC, version = QLS_JRNL_VERSION, uflag = 0, rid = 7\<rparr> :: rec_hdr_t"
  let ?th = "\<lparr>rhdr = ?h, xidsize = 3 :: u64\<rparr>"
  have a: "chk_hdr ?th = Inr ()" "chk_tail ?th (rec_tail_copy ?h 0) = Inr ()"
    "length (rec_tail_copy ?h 0) = REC_TAIL_SIZE" "(0::nat) < 8" "9 < 4 \<or> 8 \<le> (9::nat) \<and> (9::nat) < 16"
    "length [1, 2, 3 :: byte] = unat (3 :: u64)"
    "length (replicate (unat (3 :: u64)) (0::byte)) = unat (3 :: u64)"
    "length (txn_tail txn_rec_default) = REC_TAIL_SIZE"
    "TXN_HDR_SIZE + unat (3 :: u64) + REC_TAIL_SIZE < 2 ^ 32"
    "TXN_HDR_SIZE + unat (3 :: u64) + REC_TAIL_SIZE \<le> 1 * JRNL_DBLK_SIZE" "(0::nat) < 1"
    by (simp_all add: chk_hdr_def jrec_chk_hdr_def chk_tail_def jrec_chk_tail_def rec_tail_copy_def
        QLS_TXA_MAGIC_def QLS_TXC_MAGIC_def txn_rec_default_def TXN_HDR_SIZE_def REC_TAIL_SIZE_def
        JRNL_DBLK_SIZE_def)
  have "decode txn_rec_default (\<lambda>n. Some (replicate n 0)) ?h
          (Some (txn_hdr_bytes ?th @ [1, 2, 3] @ flip_bit (rec_tail_copy ?h 0) 9 0 @ [])) 0 1 =
        Inl JERR_JREC_BADRECTAIL"
    by (rule decode_detects_tail_flip [OF a(1-5) refl a(6) _ a(7-11)]) simp
  then show ?thesis
    unfolding Let_def by simp
qed

theorem rcv_decode_detects_tail_flip_witness:
  "let h = \<lparr>magic = QLS_TXA_MAGIC, version = QLS_JRNL_VERSION, uflag = 0, rid = 7\<rparr>;
       s = \<lparr>sbuf = word_bytes 8 (3 :: u64) @ [1, 2, 3] @ flip_bit (rec_tail_copy h 0) 0 5,
            eofbit = False, failbit = False, badbit = False, gcnt = 0\<rparr>
   in rcv_decode txn_rec_default (\<lambda>n. Some (replicate n 0)) h s 0 = Inl JERR_JREC_BADRECTAIL"
proof -
  let ?h = "\<lparr>magic = QLS_TXA_MAGIC, version = QLS_JRNL_VERSION, uflag = 0, rid = 7\<rparr> :: rec_hdr_t"
  let ?th = "\<lparr>rhdr = ?h, xidsize = 3 :: u64\<rparr>"
  let ?s = "\<lparr>sbuf = word_bytes 8 (3 :: u64) @ [1, 2, 3] @ flip_bit (rec_tail_copy ?h 0) 0 5,
            eofbit = False, failbit = False, badbit = False, gcnt = 0\<rparr>"
  have a: "good ?s" "chk_tail ?th (rec_tail_copy ?h 0) = Inr ()"
    "length (rec_tail_copy ?h 0) = REC_TAIL_SIZE" "(5::nat) < 8" "(0::nat) < 4 \<or> 8 \<le> (0::nat) \<and> (0::nat) < 16"
    "sbuf ?s = word_bytes 8 (3 :: u64) @ [1, 2, 3] @ flip_bit (rec_tail_copy ?h 0) 0 5 @ []"
    "length [1, 2, 3 :: byte] = unat (3 :: u64)"
    "length (replicate (unat (3 :: u64)) (0::byte)) = unat (3 :: u64)"
    "length (txn_tail txn_rec_default) = REC_TAIL_SIZE"
    "TXN_HDR_SIZE + unat (3 :: u64) + REC_TAIL_SIZE < 2 ^ 32"
    by (simp_all add: good_def chk_tail_def jrec_chk_tail_def rec_tail_copy_def
        txn_rec_default_def TXN_HDR_SIZE_def REC_TAIL_SIZE_def)
  have "rcv_decode txn_rec_default (\<lambda>n. Some (replicate n 0)) ?h ?s 0 = Inl JERR_JREC_BADRECTAIL"
    by (rule rcv_decode_detects_tail_flip [OF a(1-5) a(6) a(7) _ a(8-10)]) simp
  then show ?thesis
    unfolding Let_def by simp
qed

end
