(* ===== verification/Resume.thy ===== *)
theory Resume
  imports Recover
begin

text \<open>
  Resumption of \<open>txn_rec::rcv_decode\<close> (lines 309--364) across files. When a call
  returns \<open>false\<close> because the journal file ended inside the record, the recovery
  driver calls \<open>rcv_decode\<close> again on the next file with the same object and the
  \<open>rec_offs\<close> the first call left. The stages skip what \<open>rec_offs\<close> says is done
  (lines 328, 344) and continue each region at \<open>rec_offs\<close> less the regions before it.
  This theory shows that the two calls together do what one call on the joined stream
  does when the first file ends after the \<open>xidsize\<close> field, and that they do not
  when it ends inside that field.
\<close>

subsection \<open>Facts: the stages of a resumed call\<close>

lemma rcv_decode_resumed:
  "ro \<noteq> 0 \<Longrightarrow> rcv_xid r s ro = Inr (True, r2, s2, ro2) \<Longrightarrow> rcv_tail r2 s2 ro2 = Inr (True, r3, s3, ro3) \<Longrightarrow>
   rcv_decode r malloc h s ro = rcv_finish r3 s3 ro3"
  by (simp add: rcv_decode_def)

lemma rcv_finish_gcnt:
  "good s \<Longrightarrow> rcv_finish r (s\<lparr>gcnt := a\<rparr>) ro = rcv_finish r (s\<lparr>gcnt := c\<rparr>) ro"
  by (simp add: rcv_finish_def is_ignore_def good_def Let_def)

lemma rcv_resume_in_xid:
  assumes g: "good s" and sb: "sbuf s = z @ t @ zs" and xyz: "y @ z = x"
    and lx: "length x = unat xw" and ly: "length y < unat xw" and lt: "length t = REC_TAIL_SIZE"
    and lb: "length b = unat xw" and T: "length (txn_tail r) = REC_TAIL_SIZE"
    and bnd: "TXN_HDR_SIZE + unat xw + REC_TAIL_SIZE < 2 ^ 32"
  shows "rcv_decode (r\<lparr>txn_hdr := \<lparr>rhdr = h, xidsize = xw\<rparr>, buff := Some (splice b 0 y)\<rparr>) malloc h s
            (TXN_HDR_SIZE + length y) =
         rcv_finish (r\<lparr>txn_hdr := \<lparr>rhdr = h, xidsize = xw\<rparr>, buff := Some x, txn_tail := t\<rparr>)
           (s\<lparr>sbuf := zs, gcnt := REC_TAIL_SIZE\<rparr>) (TXN_HDR_SIZE + unat xw + REC_TAIL_SIZE)"
proof -
  let ?r1 = "r\<lparr>txn_hdr := \<lparr>rhdr = h, xidsize = xw\<rparr>, buff := Some (splice b 0 y)\<rparr>"
  let ?r2 = "r\<lparr>txn_hdr := \<lparr>rhdr = h, xidsize = xw\<rparr>, buff := Some x\<rparr>"
  have x1: "xid_size ?r1 = unat xw" and x2: "xid_size ?r2 = unat xw" by (simp_all add: xid_size_def)
  have lz: "length z = TXN_HDR_SIZE + xid_size ?r1 - (TXN_HDR_SIZE + length y)"
    using xyz lx x1 by auto
  have "length y + length z = unat xw"
    using xyz lx by (metis length_append)
  then have bx: "splice (splice b 0 y) (length y) z = x"
    using splice_append [of 0 y z b] xyz lx lb by simp
  have xd: "rcv_xid ?r1 s (TXN_HDR_SIZE + length y) =
            Inr (True, ?r2, s\<lparr>sbuf := t @ zs, gcnt := length z\<rparr>, TXN_HDR_SIZE + unat xw)"
    using rcv_xid_full [of ?r1 "splice b 0 y" "TXN_HDR_SIZE + length y" s z "t @ zs", OF _ _ _ _ _ g sb lz]
      x1 ly lb bnd bx by simp
  have td: "rcv_tail ?r2 (s\<lparr>sbuf := t @ zs, gcnt := length z\<rparr>) (TXN_HDR_SIZE + unat xw) =
            Inr (True, ?r2\<lparr>txn_tail := t\<rparr>, s\<lparr>sbuf := zs, gcnt := REC_TAIL_SIZE\<rparr>,
                 TXN_HDR_SIZE + unat xw + REC_TAIL_SIZE)"
    using rcv_tail_full [of ?r2 "TXN_HDR_SIZE + unat xw" "s\<lparr>sbuf := t @ zs, gcnt := length z\<rparr>" t zs]
      x2 T bnd g lt by simp
  show ?thesis
    using rcv_decode_resumed [OF _ xd td] by (simp add: TXN_HDR_SIZE_def)
qed

lemma rcv_resume_in_tail:
  assumes g: "good s" and sb: "sbuf s = u @ zs" and yut: "y @ u = t"
    and lx: "length x = unat xw" and ly: "length y < REC_TAIL_SIZE" and lt: "length t = REC_TAIL_SIZE"
    and T: "length (txn_tail r) = REC_TAIL_SIZE"
    and bnd: "TXN_HDR_SIZE + unat xw + REC_TAIL_SIZE < 2 ^ 32"
  shows "rcv_decode (r\<lparr>txn_hdr := \<lparr>rhdr = h, xidsize = xw\<rparr>, buff := Some x,
                       txn_tail := splice (txn_tail r) 0 y\<rparr>) malloc h s (TXN_HDR_SIZE + unat xw + length y) =
         rcv_finish (r\<lparr>txn_hdr := \<lparr>rhdr = h, xidsize = xw\<rparr>, buff := Some x, txn_tail := t\<rparr>)
           (s\<lparr>sbuf := zs, gcnt := length u\<rparr>) (TXN_HDR_SIZE + unat xw + REC_TAIL_SIZE)"
proof -
  let ?r1 = "r\<lparr>txn_hdr := \<lparr>rhdr = h, xidsize = xw\<rparr>, buff := Some x, txn_tail := splice (txn_tail r) 0 y\<rparr>"
  have x1: "xid_size ?r1 = unat xw" by (simp add: xid_size_def)
  have T1: "length (txn_tail ?r1) = REC_TAIL_SIZE"
    using T ly by simp
  have xd: "rcv_xid ?r1 s (TXN_HDR_SIZE + unat xw + length y) = Inr (True, ?r1, s, TXN_HDR_SIZE + unat xw + length y)"
    using rcv_xid_skip [of ?r1] x1 bnd by simp
  have lu: "length u = TXN_HDR_SIZE + xid_size ?r1 + REC_TAIL_SIZE - (TXN_HDR_SIZE + unat xw + length y)"
    using yut lt x1 by auto
  have "length y + length u = REC_TAIL_SIZE"
    using yut lt by (metis length_append)
  then have tt: "splice (splice (txn_tail r) 0 y) (length y) u = t"
    using splice_append [of 0 y u "txn_tail r"] yut lt T by simp
  have td: "rcv_tail ?r1 s (TXN_HDR_SIZE + unat xw + length y) =
            Inr (True, ?r1\<lparr>txn_tail := t\<rparr>, s\<lparr>sbuf := zs, gcnt := length u\<rparr>,
                 TXN_HDR_SIZE + unat xw + REC_TAIL_SIZE)"
    using rcv_tail_full [OF T1, of "TXN_HDR_SIZE + unat xw + length y" s u zs] x1 ly bnd g sb lu tt by simp
  show ?thesis
    using rcv_decode_resumed [OF _ xd td] by (simp add: TXN_HDR_SIZE_def)
qed

lemma good_sbuf [simp]: "good (s\<lparr>sbuf := zs\<rparr>) = good s"
  by (simp add: good_def)

subsection \<open>Resumption\<close>

text \<open>
  C16. Resumption after a truncated file: if the first file ends anywhere after the
  8-byte \<open>xidsize\<close> field and before the record's last byte, \<open>rcv_decode\<close> on it
  returns \<open>false\<close> with \<open>rec_offs\<close> counting the record bytes read; resumed on the
  next file, which holds the rest of the record and whatever follows, with that object
  and that \<open>rec_offs\<close>, it returns exactly what a single call on the joined stream
  returns (record, stream state and \<open>rec_offs\<close>, or the tail check's error).
\<close>

theorem rcv_decode_resume:
  assumes g1: "good s1" and g2: "good s2"
    and sb1: "sbuf s1 = take n (word_bytes 8 (xw :: u64) @ x @ t)"
    and sb2: "sbuf s2 = drop n (word_bytes 8 xw @ x @ t) @ zs"
    and n: "8 \<le> n" "n < 8 + unat xw + REC_TAIL_SIZE"
    and lx: "length x = unat xw" and lt: "length t = REC_TAIL_SIZE"
    and al: "malloc (unat xw) = Some b" and lb: "length b = unat xw"
    and T: "length (txn_tail r) = REC_TAIL_SIZE"
    and bnd: "TXN_HDR_SIZE + unat xw + REC_TAIL_SIZE < 2 ^ 32"
  shows "\<exists>r1 s1'. rcv_decode r malloc h s1 0 = Inr (False, r1, s1', REC_HDR_SIZE + n) \<and>
           rcv_decode r1 malloc h s2 (REC_HDR_SIZE + n) =
           rcv_decode r malloc h (s2\<lparr>sbuf := word_bytes 8 xw @ x @ t @ zs\<rparr>) 0"
proof -
  let ?r' = "r\<lparr>txn_hdr := \<lparr>rhdr = h, xidsize = xw\<rparr>, buff := Some x, txn_tail := t\<rparr>"
  let ?rs = "TXN_HDR_SIZE + unat xw + REC_TAIL_SIZE"
  have whole: "rcv_decode r malloc h (s2\<lparr>sbuf := word_bytes 8 xw @ x @ t @ zs\<rparr>) 0 =
               rcv_finish ?r' (s2\<lparr>sbuf := zs, gcnt := REC_TAIL_SIZE\<rparr>) ?rs"
    using rcv_decode_whole_record [where malloc = malloc and h = h and s = "s2\<lparr>sbuf := word_bytes 8 xw @ x @ t @ zs\<rparr>",
        OF _ _ lx lt al lb T bnd] g2 by simp
  consider (xid) "n - 8 < unat xw" | (tail) "unat xw \<le> n - 8" by linarith
  then show ?thesis
  proof cases
    case xid
    let ?y = "take (n - 8) x" and ?z = "drop (n - 8) x"
    have c1: "sbuf s1 = word_bytes 8 xw @ ?y" and ly: "length ?y < unat xw"
      and c2: "sbuf s2 = ?z @ t @ zs" and ro: "REC_HDR_SIZE + n = TXN_HDR_SIZE + length ?y"
      using sb1 sb2 n xid lx by (simp_all add: take_append REC_HDR_SIZE_def TXN_HDR_SIZE_def)
    show ?thesis
      unfolding ro whole
      using rcv_cut_in_xid [where malloc = malloc, OF g1 c1 ly al lb bnd]
        rcv_resume_in_xid [OF g2 c2 _ lx ly lt lb T bnd] by simp
  next
    case tail
    let ?y = "take (n - 8 - unat xw) t" and ?u = "drop (n - 8 - unat xw) t"
    have c1: "sbuf s1 = word_bytes 8 xw @ x @ ?y" and ly: "length ?y < REC_TAIL_SIZE"
      and c2: "sbuf s2 = ?u @ zs" and ro: "REC_HDR_SIZE + n = TXN_HDR_SIZE + unat xw + length ?y"
      using sb1 sb2 n tail lx lt by (simp_all add: take_append REC_HDR_SIZE_def TXN_HDR_SIZE_def)
    have "rcv_finish ?r' (s2\<lparr>sbuf := zs, gcnt := length ?u\<rparr>) ?rs =
          rcv_finish ?r' (s2\<lparr>sbuf := zs, gcnt := REC_TAIL_SIZE\<rparr>) ?rs"
      using rcv_finish_gcnt [of "s2\<lparr>sbuf := zs\<rparr>"] g2 by simp
    then show ?thesis
      unfolding ro whole
      using rcv_cut_in_tail [where malloc = malloc, OF g1 c1 lx ly T al lb bnd]
        rcv_resume_in_tail [OF g2 c2 _ lx ly lt T bnd] by simp
  qed
qed

theorem rcv_decode_resume_witness:
  "let h = \<lparr>magic = QLS_TXC_MAGIC, version = QLS_JRNL_VERSION, uflag = 0, rid = 9\<rparr>;
       w = word_bytes 8 (4 :: u64) @ [1, 2, 3, 4] @ rec_tail_copy h 0;
       m = (\<lambda>n. Some (replicate n 0));
       s1 = \<lparr>sbuf = take 14 w, eofbit = False, failbit = False, badbit = False, gcnt = 0\<rparr>;
       s2 = \<lparr>sbuf = drop 14 w @ replicate 84 0, eofbit = False, failbit = False, badbit = False, gcnt = 0\<rparr>
   in \<exists>r1 s1'. rcv_decode txn_rec_default m h s1 0 = Inr (False, r1, s1', 30) \<and>
        rcv_decode r1 m h s2 30 = rcv_decode txn_rec_default m h (s2\<lparr>sbuf := w @ replicate 84 0\<rparr>) 0"
proof -
  let ?h = "\<lparr>magic = QLS_TXC_MAGIC, version = QLS_JRNL_VERSION, uflag = 0, rid = 9\<rparr> :: rec_hdr_t"
  let ?w = "word_bytes 8 (4 :: u64) @ [1, 2, 3, 4] @ rec_tail_copy ?h 0"
  let ?s1 = "\<lparr>sbuf = take 14 ?w, eofbit = False, failbit = False, badbit = False, gcnt = 0\<rparr>"
  let ?s2 = "\<lparr>sbuf = drop 14 ?w @ replicate 84 0, eofbit = False, failbit = False, badbit = False, gcnt = 0\<rparr>"
  have a: "good ?s1" "good ?s2" "sbuf ?s1 = take 14 ?w" "sbuf ?s2 = drop 14 ?w @ replicate 84 0"
    "8 \<le> (14::nat)" "14 < 8 + unat (4 :: u64) + REC_TAIL_SIZE" "length [1, 2, 3, 4 :: byte] = unat (4 :: u64)"
    "length (rec_tail_copy ?h 0) = REC_TAIL_SIZE" "Some (replicate (unat (4 :: u64)) (0 :: byte)) = Some (replicate 4 0)"
    "length (replicate 4 (0 :: byte)) = unat (4 :: u64)" "length (txn_tail txn_rec_default) = REC_TAIL_SIZE"
    "TXN_HDR_SIZE + unat (4 :: u64) + REC_TAIL_SIZE < 2 ^ 32"
    by (simp_all add: good_def REC_TAIL_SIZE_def TXN_HDR_SIZE_def rec_tail_copy_def txn_rec_default_def)
  have e: "REC_HDR_SIZE + 14 = (30::nat)" by (simp add: REC_HDR_SIZE_def)
  show ?thesis
    using rcv_decode_resume [where malloc = "\<lambda>n. Some (replicate n 0)" and h = ?h, OF a]
    unfolding e Let_def by simp
qed

text \<open>
  C17. Resumption after a cut inside the \<open>xidsize\<close> field does not work: a first
  file holding only 5 of its 8 bytes leaves \<open>rec_offs = sizeof(txn_hdr_t)\<close>
  (line 324), so the resumed call takes the next file's first bytes (the rest of the
  field) as payload and its tail check fails with \<open>JERR_JREC_BADRECTAIL\<close>,
  although the joined stream holds a valid record that one call reads back.
\<close>

theorem rcv_decode_resume_field_cut:
  "let h = \<lparr>magic = QLS_TXA_MAGIC, version = QLS_JRNL_VERSION, uflag = 0, rid = 7\<rparr>;
       w = word_bytes 8 (4 :: u64) @ [1, 2, 3, 4] @ rec_tail_copy h 0;
       m = (\<lambda>n. Some (replicate n 0));
       s = \<lparr>sbuf = take 5 w, eofbit = False, failbit = False, badbit = False, gcnt = 0\<rparr>;
       s2 = \<lparr>sbuf = drop 5 w @ replicate 84 0, eofbit = False, failbit = False, badbit = False, gcnt = 0\<rparr>
   in (\<exists>r1 s1. rcv_decode txn_rec_default m h s 0 = Inr (False, r1, s1, TXN_HDR_SIZE) \<and>
               rcv_decode r1 m h s2 TXN_HDR_SIZE = Inl JERR_JREC_BADRECTAIL) \<and>
      (\<exists>r' s'. rcv_decode txn_rec_default m h (s2\<lparr>sbuf := w @ replicate 84 0\<rparr>) 0 = Inr (True, r', s', 44))"
proof -
  let ?h = "\<lparr>magic = QLS_TXA_MAGIC, version = QLS_JRNL_VERSION, uflag = 0, rid = 7\<rparr> :: rec_hdr_t"
  let ?t = "rec_tail_copy ?h 0"
  let ?w = "word_bytes 8 (4 :: u64) @ [1, 2, 3, 4] @ ?t"
  let ?m = "\<lambda>n::nat. Some (replicate n (0::byte))"
  let ?s = "\<lparr>sbuf = take 5 ?w, eofbit = False, failbit = False, badbit = False, gcnt = 0\<rparr>"
  let ?s2 = "\<lparr>sbuf = drop 5 ?w @ replicate 84 0, eofbit = False, failbit = False, badbit = False, gcnt = 0\<rparr>"
  let ?r1 = "txn_rec_default\<lparr>txn_hdr := \<lparr>rhdr = ?h, xidsize = 4\<rparr>, buff := Some (replicate 4 0)\<rparr>"
  have w8: "word_bytes 8 (4 :: u64) = [4, 0, 0, 0, 0, 0, 0, 0]"
    by (simp add: word_bytes_def le_enc_numeral)
  have tw: "take 5 ?w = [4, 0, 0, 0, 0]" and dw: "drop 5 ?w = [0, 0, 0, 1, 2, 3, 4] @ ?t"
    by (simp_all add: w8)
  have xw: "(bytes_word (splice (word_bytes 8 (xidsize (txn_hdr txn_rec_default))) 0 (take 5 ?w)) :: u64) = 4"
    using tw by (simp add: txn_rec_default_def txn_hdr_init_def word_bytes_def le_enc_numeral bytes_word_def splice_def)
  define s1 where "s1 = ?s\<lparr>sbuf := [], eofbit := True, failbit := True, gcnt := 5\<rparr>"
  have hd: "rcv_hdr txn_rec_default ?m ?h ?s = Inr (?r1, s1)"
    using rcv_hdr_short [where s = ?s and r = txn_rec_default and malloc = ?m and h = ?h and b = "replicate 4 0"] xw tw by (simp add: good_def s1_def txn_rec_default_def)
  have xd: "rcv_xid ?r1 s1 TXN_HDR_SIZE = Inr (False, ?r1, s1\<lparr>failbit := False, gcnt := 0\<rparr>, TXN_HDR_SIZE)"
    by (rule rcv_xid_not_good) (simp_all add: s1_def xid_size_def TXN_HDR_SIZE_def)
  have first: "rcv_decode txn_rec_default ?m ?h ?s 0 = Inr (False, ?r1, s1\<lparr>failbit := False, gcnt := 0\<rparr>, TXN_HDR_SIZE)"
    by (rule rcv_decode_false [OF hd xd])
  let ?t' = "[2, 3, 4] @ take 13 ?t"
  have lt: "length ?t = REC_TAIL_SIZE" "length ?t' = REC_TAIL_SIZE"
    by (simp_all add: REC_TAIL_SIZE_def rec_tail_copy_def)
  have sb2: "sbuf ?s2 = [0, 0, 0, 1] @ ?t' @ (drop 13 ?t @ replicate 84 0)"
    using dw by simp
  have resumed: "rcv_decode ?r1 ?m ?h ?s2 (TXN_HDR_SIZE + length ([] :: byte list)) =
        rcv_finish (txn_rec_default\<lparr>txn_hdr := \<lparr>rhdr = ?h, xidsize = 4\<rparr>, buff := Some [0, 0, 0, 1], txn_tail := ?t'\<rparr>)
           (?s2\<lparr>sbuf := drop 13 ?t @ replicate 84 0, gcnt := REC_TAIL_SIZE\<rparr>) (TXN_HDR_SIZE + unat (4::u64) + REC_TAIL_SIZE)"
    using rcv_resume_in_xid [of ?s2 "[0, 0, 0, 1]" ?t' "drop 13 ?t @ replicate 84 0" "[]" "[0, 0, 0, 1]" 4
        "replicate 4 0" txn_rec_default ?h ?m] sb2 lt
    by (simp add: good_def txn_rec_default_def TXN_HDR_SIZE_def REC_TAIL_SIZE_def)
  have bad: "chk_tail \<lparr>rhdr = ?h, xidsize = 4\<rparr> ?t' = Inl JERR_JREC_BADRECTAIL"
    by (simp add: chk_tail_def jrec_chk_tail_def tail_xmagic_def rec_tail_copy_def rec_tail_init_def
        word_bytes_def le_enc_numeral bytes_word_def QLS_TXA_MAGIC_def)
  have cut: "rcv_decode ?r1 ?m ?h ?s2 TXN_HDR_SIZE = Inl JERR_JREC_BADRECTAIL"
    using resumed bad by (simp add: rcv_finish_def Let_def)
  have whole: "rcv_decode txn_rec_default ?m ?h (?s2\<lparr>sbuf := ?w @ replicate 84 0\<rparr>) 0 =
        rcv_finish (txn_rec_default\<lparr>txn_hdr := \<lparr>rhdr = ?h, xidsize = 4\<rparr>, buff := Some [1, 2, 3, 4], txn_tail := ?t\<rparr>)
           (?s2\<lparr>sbuf := replicate 84 0, gcnt := REC_TAIL_SIZE\<rparr>) (TXN_HDR_SIZE + unat (4::u64) + REC_TAIL_SIZE)"
    using rcv_decode_whole_record [of "?s2\<lparr>sbuf := ?w @ replicate 84 0\<rparr>" 4 "[1, 2, 3, 4]" ?t "replicate 84 0" ?m
        "replicate 4 0" txn_rec_default ?h] lt
    by (simp add: good_def txn_rec_default_def TXN_HDR_SIZE_def REC_TAIL_SIZE_def)
  have ok: "\<exists>r' s'. rcv_decode txn_rec_default ?m ?h (?s2\<lparr>sbuf := ?w @ replicate 84 0\<rparr>) 0 = Inr (True, r', s', 44)"
    unfolding whole
    by (simp add: rcv_finish_def is_ignore_def rec_size_dblks_def rec_size_def size_dblks_def xid_size_def
        chk_tail_def jrec_chk_tail_def rec_tail_copy_def trunc_def usub_def good_def
        TXN_HDR_SIZE_def REC_TAIL_SIZE_def JRNL_DBLK_SIZE_def Let_def)
  show ?thesis
    unfolding Let_def using first cut ok by blast
qed

end
