(* ===== verification/RecoverRun.thy ===== *)
theory RecoverRun
  imports Resume
begin

text \<open>
  The recovery driver, which is outside \<open>src/\<close> and is modelled from the
  specification: it opens the journal files one after the other and calls
  \<open>txn_rec::rcv_decode\<close> (lines 309--364) on each with the same object and the
  \<open>rec_offs\<close> the previous call left, until a call returns \<open>true\<close>; a call that
  returns \<open>false\<close> means the file ended inside the record. \<open>rcv_run\<close> is a
  structural recursion over the list of file contents, so it needs no fuel.
  \<open>rcv_prefix\<close> is the object after the first \<open>p\<close> bytes of the record after its
  \<open>xidsize\<close> field have been read: it is the state the induction over the files carries.
\<close>

definition open_stream :: "byte list \<Rightarrow> ifstream" where
  "open_stream f = \<lparr>sbuf = f, eofbit = False, failbit = False, badbit = False, gcnt = 0\<rparr>"

fun rcv_run ::
  "txn_rec \<Rightarrow> (nat \<Rightarrow> byte list option) \<Rightarrow> rec_hdr_t \<Rightarrow> nat \<Rightarrow> byte list list \<Rightarrow> (bool \<times> txn_rec \<times> nat) res" where
  "rcv_run r malloc h ro [] = Inr (False, r, ro)"
| "rcv_run r malloc h ro (f # fs) =
     bindE (rcv_decode r malloc h (open_stream f) ro)
       (\<lambda>(done, r', s', ro'). if done then Inr (True, r', ro') else rcv_run r' malloc h ro' fs)"

text \<open>The object after reading \<open>p\<close> bytes of payload and tail.\<close>

definition rcv_prefix :: "txn_rec \<Rightarrow> rec_hdr_t \<Rightarrow> u64 \<Rightarrow> byte list \<Rightarrow> byte list \<Rightarrow> byte list \<Rightarrow> nat \<Rightarrow> txn_rec" where
  "rcv_prefix r h xw b x t p =
     r\<lparr>txn_hdr := \<lparr>rhdr = h, xidsize = xw\<rparr>, buff := Some (splice b 0 (take p x)),
       txn_tail := splice (txn_tail r) 0 (take (p - length x) t)\<rparr>"

subsection \<open>Facts: lists cut into files, and the end of a call\<close>

lemma is_ignore_good: "good s \<Longrightarrow> \<not> failbit (is_ignore s n) \<and> \<not> badbit (is_ignore s n)"
  by (simp add: is_ignore_def good_def)

lemma rcv_finish_good:
  "good s \<Longrightarrow> chk_tail (txn_hdr r) (txn_tail r) = Inr () \<Longrightarrow> \<exists>s'. rcv_finish r s ro = Inr (True, r, s', ro)"
  using is_ignore_good [of s] by (simp add: rcv_finish_def Let_def)

lemma concat_three_cuts:
  "concat [take a w, take b (drop a w), drop (a + b) w @ pad] = w @ pad"
proof -
  have "take a w @ take b (drop a w) = take (a + b) w"
    by (simp add: take_add)
  then show ?thesis
    by (metis append.assoc append_take_drop_id concat.simps(1) concat.simps(2) self_append_conv)
qed

lemma rcv_decode_resumed_xid_false:
  "ro \<noteq> 0 \<Longrightarrow> rcv_xid r s ro = Inr (False, r2, s2, ro2) \<Longrightarrow> rcv_decode r malloc h s ro = Inr (False, r2, s2, ro2)"
  by (simp add: rcv_decode_def)

lemma rcv_decode_resumed_tail_false:
  "ro \<noteq> 0 \<Longrightarrow> rcv_xid r s ro = Inr (True, r2, s2, ro2) \<Longrightarrow> rcv_tail r2 s2 ro2 = Inr (False, r3, s3, ro3) \<Longrightarrow>
   rcv_decode r malloc h s ro = Inr (False, r3, s3, ro3)"
  by (simp add: rcv_decode_def)

lemma rcv_decode_after_hdr:
  "rcv_hdr r malloc h s = Inr (r1, s1) \<Longrightarrow> rcv_decode r malloc h s 0 = rcv_decode r1 malloc h s1 TXN_HDR_SIZE"
  by (simp add: rcv_decode_def TXN_HDR_SIZE_def)

lemma splice_take_more:
  assumes "length b = length x" and "p + length u \<le> length x" and "u = take (length u) (drop p x)"
  shows "splice (splice b 0 (take p x)) p u = splice b 0 (take (p + length u) x)"
proof -
  have "splice (splice b 0 (take p x)) (0 + length (take p x)) u = splice b 0 (take p x @ u)"
    using assms by (intro splice_append) simp
  moreover have "take p x @ u = take (p + length u) x"
    using assms by (metis take_add)
  ultimately show ?thesis
    using assms by simp
qed

subsection \<open>Facts: one call from a prefix state\<close>

lemma rcv_prefix_buff:
  "length b = length x \<Longrightarrow> buff (rcv_prefix r h xw b x t p) = Some (splice b 0 (take p x))"
  "xid_size (rcv_prefix r h xw b x t p) = unat xw"
  "length b = length x \<Longrightarrow> length (splice b 0 (take p x)) = length x"
  by (simp_all add: rcv_prefix_def xid_size_def)

lemma rcv_step_in_xid:
  assumes g: "good s" and sb: "sbuf s = u" and p: "p < unat xw" and lu: "length u < unat xw - p"
    and u: "u = take (length u) (drop p x)"
    and lx: "length x = unat xw" and lb: "length b = unat xw"
    and bnd: "TXN_HDR_SIZE + unat xw + REC_TAIL_SIZE < 2 ^ 32"
  shows "\<exists>s'. rcv_decode (rcv_prefix r h xw b x t p) malloc h s (TXN_HDR_SIZE + p) =
           Inr (False, rcv_prefix r h xw b x t (p + length u), s', TXN_HDR_SIZE + p + length u)"
proof -
  let ?r1 = "rcv_prefix r h xw b x t p" and ?b1 = "splice b 0 (take p x)"
  have l1: "length ?b1 = xid_size ?r1" using lb lx by (simp add: rcv_prefix_buff)
  have bf: "buff ?r1 = Some ?b1" using lb lx by (simp add: rcv_prefix_buff)
  have "rcv_xid ?r1 s (TXN_HDR_SIZE + p) =
        Inr (False, ?r1\<lparr>buff := Some (splice ?b1 p u)\<rparr>,
             s\<lparr>sbuf := [], eofbit := True, failbit := False, gcnt := length u\<rparr>, TXN_HDR_SIZE + p + length u)"
    using rcv_xid_short [OF bf l1, of "TXN_HDR_SIZE + p" s] l1 lx p bnd g sb lu
    by (simp add: rcv_prefix_buff)
  moreover have "splice ?b1 p u = splice b 0 (take (p + length u) x)"
    using lb lx p lu u by (intro splice_take_more) simp_all
  moreover have "?r1\<lparr>buff := Some (splice b 0 (take (p + length u) x))\<rparr> = rcv_prefix r h xw b x t (p + length u)"
    using p lu lx by (simp add: rcv_prefix_def)
  ultimately show ?thesis
    using rcv_decode_resumed_xid_false [of "TXN_HDR_SIZE + p"] by (auto simp: TXN_HDR_SIZE_def)
qed

lemma rcv_step_cross:
  assumes g: "good s" and sb: "sbuf s = drop p x @ v" and p: "p < unat xw" and lv: "length v < REC_TAIL_SIZE"
    and v: "v = take (length v) t"
    and lx: "length x = unat xw" and lb: "length b = unat xw" and T: "length (txn_tail r) = REC_TAIL_SIZE"
    and bnd: "TXN_HDR_SIZE + unat xw + REC_TAIL_SIZE < 2 ^ 32"
  shows "\<exists>s'. rcv_decode (rcv_prefix r h xw b x t p) malloc h s (TXN_HDR_SIZE + p) =
           Inr (False, rcv_prefix r h xw b x t (unat xw + length v), s', TXN_HDR_SIZE + unat xw + length v)"
proof -
  let ?r1 = "rcv_prefix r h xw b x t p" and ?b1 = "splice b 0 (take p x)"
  have l1: "length ?b1 = xid_size ?r1" using lb lx by (simp add: rcv_prefix_buff)
  have bf: "buff ?r1 = Some ?b1" using lb lx by (simp add: rcv_prefix_buff)
  have "splice ?b1 p (drop p x) = splice b 0 (take (p + length (drop p x)) x)"
    using lb lx p by (intro splice_take_more) simp_all
  then have bx: "splice ?b1 p (drop p x) = x"
    using lb lx p by simp
  let ?r2 = "?r1\<lparr>buff := Some x\<rparr>"
  have xd: "rcv_xid ?r1 s (TXN_HDR_SIZE + p) =
            Inr (True, ?r2, s\<lparr>sbuf := v, gcnt := length (drop p x)\<rparr>, TXN_HDR_SIZE + unat xw)"
    using rcv_xid_full [OF bf l1, of "TXN_HDR_SIZE + p" s "drop p x" v] l1 lx p bnd g sb bx
    by (simp add: rcv_prefix_buff)
  have T2: "length (txn_tail ?r2) = REC_TAIL_SIZE" and x2: "xid_size ?r2 = unat xw"
    and t2: "txn_tail ?r2 = txn_tail r"
    using T p lx by (simp_all add: rcv_prefix_def xid_size_def)
  have td: "rcv_tail ?r2 (s\<lparr>sbuf := v, gcnt := length (drop p x)\<rparr>) (TXN_HDR_SIZE + unat xw) =
            Inr (False, ?r2\<lparr>txn_tail := splice (txn_tail r) 0 v\<rparr>,
                 s\<lparr>sbuf := [], eofbit := True, failbit := False, gcnt := length v\<rparr>,
                 TXN_HDR_SIZE + unat xw + length v)"
    using rcv_tail_short [OF T2, of "TXN_HDR_SIZE + unat xw" "s\<lparr>sbuf := v, gcnt := length (drop p x)\<rparr>"]
      x2 t2 bnd g lv by simp
  have "?r2\<lparr>txn_tail := splice (txn_tail r) 0 v\<rparr> = rcv_prefix r h xw b x t (unat xw + length v)"
    using lx lb v by (simp add: rcv_prefix_def)
  then show ?thesis
    using rcv_decode_resumed_tail_false [OF _ xd td] by (auto simp: TXN_HDR_SIZE_def)
qed

lemma rcv_step_in_tail:
  assumes g: "good s" and sb: "sbuf s = u" and p: "unat xw \<le> p" and lu: "length u < unat xw + REC_TAIL_SIZE - p"
    and u: "u = take (length u) (drop (p - unat xw) t)"
    and lx: "length x = unat xw" and lb: "length b = unat xw" and lt: "length t = REC_TAIL_SIZE"
    and T: "length (txn_tail r) = REC_TAIL_SIZE"
    and bnd: "TXN_HDR_SIZE + unat xw + REC_TAIL_SIZE < 2 ^ 32"
  shows "\<exists>s'. rcv_decode (rcv_prefix r h xw b x t p) malloc h s (TXN_HDR_SIZE + p) =
           Inr (False, rcv_prefix r h xw b x t (p + length u), s', TXN_HDR_SIZE + p + length u)"
proof -
  let ?r1 = "rcv_prefix r h xw b x t p" and ?t1 = "splice (txn_tail r) 0 (take (p - unat xw) t)"
  have x1: "xid_size ?r1 = unat xw" and t1: "txn_tail ?r1 = ?t1"
    using lx by (simp_all add: rcv_prefix_def xid_size_def)
  have T1: "length (txn_tail ?r1) = REC_TAIL_SIZE"
    using T lt lu p by (simp add: rcv_prefix_def)
  have xd: "rcv_xid ?r1 s (TXN_HDR_SIZE + p) = Inr (True, ?r1, s, TXN_HDR_SIZE + p)"
    using rcv_xid_skip [of ?r1] x1 p bnd by simp
  have td: "rcv_tail ?r1 s (TXN_HDR_SIZE + p) =
            Inr (False, ?r1\<lparr>txn_tail := splice ?t1 (p - unat xw) u\<rparr>,
                 s\<lparr>sbuf := [], eofbit := True, failbit := False, gcnt := length u\<rparr>, TXN_HDR_SIZE + p + length u)"
    using rcv_tail_short [OF T1, of "TXN_HDR_SIZE + p" s] x1 t1 p lu bnd g sb by simp
  have "splice ?t1 (p - unat xw) u = splice (txn_tail r) 0 (take (p - unat xw + length u) t)"
    using T lt p lu u by (intro splice_take_more) simp_all
  moreover have "?r1\<lparr>txn_tail := splice (txn_tail r) 0 (take (p - unat xw + length u) t)\<rparr> =
                 rcv_prefix r h xw b x t (p + length u)"
    using lx p lb by (simp add: rcv_prefix_def)
  ultimately show ?thesis
    using rcv_decode_resumed_tail_false [OF _ xd td] by (auto simp: TXN_HDR_SIZE_def)
qed

lemma rcv_step_partial:
  assumes g: "good s" and sb: "sbuf s = u" and p: "p < unat xw + REC_TAIL_SIZE"
    and lu: "length u < unat xw + REC_TAIL_SIZE - p" and u: "u = take (length u) (drop p (x @ t))"
    and lx: "length x = unat xw" and lb: "length b = unat xw" and lt: "length t = REC_TAIL_SIZE"
    and T: "length (txn_tail r) = REC_TAIL_SIZE"
    and bnd: "TXN_HDR_SIZE + unat xw + REC_TAIL_SIZE < 2 ^ 32"
  shows "\<exists>s'. rcv_decode (rcv_prefix r h xw b x t p) malloc h s (TXN_HDR_SIZE + p) =
           Inr (False, rcv_prefix r h xw b x t (p + length u), s', TXN_HDR_SIZE + p + length u)"
proof -
  consider (xid) "p < unat xw" "length u < unat xw - p" | (cross) "p < unat xw" "unat xw - p \<le> length u"
    | (tail) "unat xw \<le> p" by linarith
  then show ?thesis
  proof cases
    case xid
    have "take (length u) (drop p (x @ t)) = take (length u) (drop p x)"
      using xid lx by (simp add: take_append)
    then show ?thesis
      using rcv_step_in_xid [OF g sb xid trans [OF u] lx lb bnd] by blast
  next
    case cross
    let ?v = "take (length u - (unat xw - p)) t"
    have "take (length u) (drop p (x @ t)) = drop p x @ ?v"
      using cross lx by (simp add: take_append)
    then have uv: "u = drop p x @ ?v" by (rule trans [OF u])
    have v: "?v = take (length ?v) t" by (simp add: min_def)
    have lv: "length ?v < REC_TAIL_SIZE" using lu cross by simp
    have "length u - (unat xw - p) < length t"
      using lu cross lt by linarith
    then have "length ?v = length u - (unat xw - p)"
      by simp
    then have e: "unat xw + length ?v = p + length u"
      and e2: "TXN_HDR_SIZE + unat xw + length ?v = TXN_HDR_SIZE + p + length u"
      using cross by linarith+
    have "\<exists>s'. rcv_decode (rcv_prefix r h xw b x t p) malloc h s (TXN_HDR_SIZE + p) =
            Inr (False, rcv_prefix r h xw b x t (unat xw + length ?v), s', TXN_HDR_SIZE + unat xw + length ?v)"
      by (rule rcv_step_cross [OF g trans [OF sb uv] cross(1) lv v lx lb T bnd])
    then show ?thesis
      by (simp only: e e2)
  next
    case tail
    have "take (length u) (drop p (x @ t)) = take (length u) (drop (p - unat xw) t)"
      using tail lx by simp
    then show ?thesis
      using rcv_step_in_tail [OF g sb tail _ trans [OF u] lx lb lt T bnd] lu by simp
  qed
qed

lemma rcv_step_complete:
  assumes g: "good s" and sb: "sbuf s = drop p (x @ t) @ z" and p: "p < unat xw + REC_TAIL_SIZE"
    and lx: "length x = unat xw" and lb: "length b = unat xw" and lt: "length t = REC_TAIL_SIZE"
    and T: "length (txn_tail r) = REC_TAIL_SIZE"
    and bnd: "TXN_HDR_SIZE + unat xw + REC_TAIL_SIZE < 2 ^ 32"
    and ok: "chk_tail \<lparr>rhdr = h, xidsize = xw\<rparr> t = Inr ()"
  shows "\<exists>s'. rcv_decode (rcv_prefix r h xw b x t p) malloc h s (TXN_HDR_SIZE + p) =
           Inr (True, r\<lparr>txn_hdr := \<lparr>rhdr = h, xidsize = xw\<rparr>, buff := Some x, txn_tail := t\<rparr>, s',
                TXN_HDR_SIZE + unat xw + REC_TAIL_SIZE)"
proof -
  let ?r' = "r\<lparr>txn_hdr := \<lparr>rhdr = h, xidsize = xw\<rparr>, buff := Some x, txn_tail := t\<rparr>"
  have fin: "\<exists>s'. rcv_finish ?r' s2 ro = Inr (True, ?r', s', ro)" if "good s2" for s2 ro
    using rcv_finish_good [OF that, of ?r'] ok by simp
  show ?thesis
  proof (cases "p < unat xw")
    case True
    have sb': "sbuf s = drop p x @ t @ z" using sb True lx by simp
    have "rcv_prefix r h xw b x t p = r\<lparr>txn_hdr := \<lparr>rhdr = h, xidsize = xw\<rparr>, buff := Some (splice b 0 (take p x))\<rparr>"
      using True lx by (simp add: rcv_prefix_def)
    moreover have "TXN_HDR_SIZE + p = TXN_HDR_SIZE + length (take p x)" using True lx by simp
    ultimately show ?thesis
      using rcv_resume_in_xid [OF g sb' _ lx _ lt lb T bnd, of "take p x" h malloc] True lx fin g
      by simp
  next
    case False
    have sb': "sbuf s = drop (p - unat xw) t @ z" using sb False lx by simp
    have "rcv_prefix r h xw b x t p =
          r\<lparr>txn_hdr := \<lparr>rhdr = h, xidsize = xw\<rparr>, buff := Some x, txn_tail := splice (txn_tail r) 0 (take (p - unat xw) t)\<rparr>"
      using False lx lb by (simp add: rcv_prefix_def)
    moreover have "TXN_HDR_SIZE + p = TXN_HDR_SIZE + unat xw + length (take (p - unat xw) t)"
      using False p lt by simp
    ultimately show ?thesis
      using rcv_resume_in_tail [OF g sb' _ lx _ lt T bnd, of "take (p - unat xw) t" h malloc] False p lt fin g
      by simp
  qed
qed

lemma append_split_prefix:
  assumes e: "u @ rest = d @ z" and l: "length u < length d"
  shows "u = take (length u) d" and "rest = drop (length u) d @ z"
proof -
  have "u = take (length u) (d @ z)" and r: "rest = drop (length u) (d @ z)"
    using e by (metis append_eq_conv_conj)+
  then show "u = take (length u) d" and "rest = drop (length u) d @ z"
    using l by simp_all
qed

lemma append_split_whole:
  assumes e: "u @ rest = d @ z" and l: "length d \<le> length u"
  shows "u = d @ drop (length d) u"
  using e l by (metis append_eq_append_conv_if append_take_drop_id)

lemma rcv_call_from:
  assumes g: "good s" and sb: "sbuf s = u" and e: "u @ rest = drop p (x @ t) @ z"
    and p: "p < unat xw + REC_TAIL_SIZE"
    and lx: "length x = unat xw" and lb: "length b = unat xw" and lt: "length t = REC_TAIL_SIZE"
    and T: "length (txn_tail r) = REC_TAIL_SIZE"
    and bnd: "TXN_HDR_SIZE + unat xw + REC_TAIL_SIZE < 2 ^ 32"
    and ok: "chk_tail \<lparr>rhdr = h, xidsize = xw\<rparr> t = Inr ()"
  shows "\<exists>s'. rcv_decode (rcv_prefix r h xw b x t p) malloc h s (TXN_HDR_SIZE + p) =
           (if unat xw + REC_TAIL_SIZE - p \<le> length u
            then Inr (True, r\<lparr>txn_hdr := \<lparr>rhdr = h, xidsize = xw\<rparr>, buff := Some x, txn_tail := t\<rparr>, s',
                      TXN_HDR_SIZE + unat xw + REC_TAIL_SIZE)
            else Inr (False, rcv_prefix r h xw b x t (p + length u), s', TXN_HDR_SIZE + (p + length u)))"
proof (cases "unat xw + REC_TAIL_SIZE - p \<le> length u")
  case True
  have "length (drop p (x @ t)) \<le> length u" using True lx lt by simp
  then have "u = drop p (x @ t) @ drop (length (drop p (x @ t))) u"
    by (rule append_split_whole [OF e])
  then have "sbuf s = drop p (x @ t) @ drop (length (drop p (x @ t))) u"
    by (rule trans [OF sb])
  then show ?thesis
    using rcv_step_complete [OF g _ p lx lb lt T bnd ok] True by simp
next
  case False
  have l: "length u < length (drop p (x @ t))" using False lx lt by simp
  have lu: "length u < unat xw + REC_TAIL_SIZE - p" using False by simp
  show ?thesis
    using rcv_step_partial [OF g sb p lu append_split_prefix(1) [OF e l] lx lb lt T bnd] False
    by (simp add: add.assoc)
qed

lemma rcv_run_from:
  assumes "concat fs = drop p (x @ t) @ z" and "p < unat xw + REC_TAIL_SIZE"
    and lx: "length x = unat xw" and lb: "length b = unat xw" and lt: "length t = REC_TAIL_SIZE"
    and T: "length (txn_tail r) = REC_TAIL_SIZE"
    and bnd: "TXN_HDR_SIZE + unat xw + REC_TAIL_SIZE < 2 ^ 32"
    and ok: "chk_tail \<lparr>rhdr = h, xidsize = xw\<rparr> t = Inr ()"
  shows "rcv_run (rcv_prefix r h xw b x t p) malloc h (TXN_HDR_SIZE + p) fs =
         Inr (True, r\<lparr>txn_hdr := \<lparr>rhdr = h, xidsize = xw\<rparr>, buff := Some x, txn_tail := t\<rparr>,
              TXN_HDR_SIZE + unat xw + REC_TAIL_SIZE)"
  using assms(1,2)
proof (induction fs arbitrary: p)
  case Nil
  then show ?case using lx lt by (simp, linarith)
next
  case (Cons f fs)
  have e: "f @ concat fs = drop p (x @ t) @ z" using Cons.prems(1) by simp
  have g: "good (open_stream f)" and sb: "sbuf (open_stream f) = f"
    by (simp_all add: open_stream_def good_def)
  obtain s' where c: "rcv_decode (rcv_prefix r h xw b x t p) malloc h (open_stream f) (TXN_HDR_SIZE + p) =
           (if unat xw + REC_TAIL_SIZE - p \<le> length f
            then Inr (True, r\<lparr>txn_hdr := \<lparr>rhdr = h, xidsize = xw\<rparr>, buff := Some x, txn_tail := t\<rparr>, s',
                      TXN_HDR_SIZE + unat xw + REC_TAIL_SIZE)
            else Inr (False, rcv_prefix r h xw b x t (p + length f), s', TXN_HDR_SIZE + (p + length f)))"
    using rcv_call_from [OF g sb e Cons.prems(2) lx lb lt T bnd ok] by blast
  show ?case
  proof (cases "unat xw + REC_TAIL_SIZE - p \<le> length f")
    case True
    then show ?thesis using c by simp
  next
    case False
    have l: "length f < length (drop p (x @ t))" using False lx lt by simp
    have "concat fs = drop (length f + p) (x @ t) @ z"
      using append_split_prefix(2) [OF e l] by (simp only: drop_drop)
    then have "concat fs = drop (p + length f) (x @ t) @ z"
      by (simp only: add.commute)
    moreover have "p + length f < unat xw + REC_TAIL_SIZE" using False by simp
    ultimately show ?thesis
      using c False Cons.IH by simp
  qed
qed

subsection \<open>Recovery across any number of files\<close>

text \<open>
  C20. Liveness of recovery across files: if the journal files, joined, hold the
  record after its \<open>rec_hdr_t\<close> (the \<open>xidsize\<close> field, the payload, a tail that
  matches the header) followed by anything, and the first file holds at least the
  8 bytes of the \<open>xidsize\<close> field, then the driver's calls of \<open>rcv_decode\<close>, one
  per file, end with \<open>true\<close>, the record's header, payload and tail in the object, and
  \<open>rec_offs = rec_size()\<close>, wherever the other files end.
\<close>

theorem rcv_run_recovers:
  assumes fs: "concat (f0 # fs) = word_bytes 8 xw @ x @ t @ z" and f0: "8 \<le> length f0"
    and lx: "length x = unat xw" and lt: "length t = REC_TAIL_SIZE"
    and al: "malloc (unat xw) = Some b" and lb: "length b = unat xw"
    and T: "length (txn_tail r) = REC_TAIL_SIZE"
    and bnd: "TXN_HDR_SIZE + unat xw + REC_TAIL_SIZE < 2 ^ 32"
    and ok: "chk_tail \<lparr>rhdr = h, xidsize = xw\<rparr> t = Inr ()"
  shows "rcv_run r malloc h 0 (f0 # fs) =
         Inr (True, r\<lparr>txn_hdr := \<lparr>rhdr = h, xidsize = xw\<rparr>, buff := Some x, txn_tail := t\<rparr>,
              TXN_HDR_SIZE + unat xw + REC_TAIL_SIZE)"
proof -
  let ?u = "drop 8 f0"
  have e: "f0 @ concat fs = word_bytes 8 xw @ (x @ t @ z)" using fs by simp
  have "take 8 (f0 @ concat fs) = take 8 f0" and "drop 8 (f0 @ concat fs) = ?u @ concat fs"
    using f0 by simp_all
  moreover have "take 8 (word_bytes 8 xw @ (x @ t @ z)) = word_bytes 8 xw"
    and "drop 8 (word_bytes 8 xw @ (x @ t @ z)) = x @ t @ z"
    by simp_all
  ultimately have t8: "take 8 f0 = word_bytes 8 xw" and e0': "?u @ concat fs = x @ t @ z"
    using e by simp_all
  have f0s: "f0 = word_bytes 8 xw @ ?u"
    using append_take_drop_id [of 8 f0] t8 by simp
  have e0: "?u @ concat fs = drop 0 (x @ t) @ z"
    using e0' by simp
  let ?s1 = "(open_stream f0)\<lparr>sbuf := ?u, gcnt := 8\<rparr>"
  have hd: "rcv_hdr r malloc h (open_stream f0) =
            Inr (r\<lparr>txn_hdr := \<lparr>rhdr = h, xidsize = xw\<rparr>, buff := Some b\<rparr>, ?s1)"
    by (rule rcv_hdr_full) (simp_all add: open_stream_def good_def al f0s [symmetric])
  have r1: "r\<lparr>txn_hdr := \<lparr>rhdr = h, xidsize = xw\<rparr>, buff := Some b\<rparr> = rcv_prefix r h xw b x t 0"
    by (simp add: rcv_prefix_def)
  have g1: "good ?s1" and sb1: "sbuf ?s1 = ?u" by (simp_all add: open_stream_def good_def)
  have p0: "(0::nat) < unat xw + REC_TAIL_SIZE" by (simp add: REC_TAIL_SIZE_def)
  obtain s' where c: "rcv_decode (rcv_prefix r h xw b x t 0) malloc h ?s1 (TXN_HDR_SIZE + 0) =
           (if unat xw + REC_TAIL_SIZE - 0 \<le> length ?u
            then Inr (True, r\<lparr>txn_hdr := \<lparr>rhdr = h, xidsize = xw\<rparr>, buff := Some x, txn_tail := t\<rparr>, s',
                      TXN_HDR_SIZE + unat xw + REC_TAIL_SIZE)
            else Inr (False, rcv_prefix r h xw b x t (0 + length ?u), s', TXN_HDR_SIZE + (0 + length ?u)))"
    using rcv_call_from [OF g1 sb1 e0 p0 lx lb lt T bnd ok] by blast
  have first: "rcv_decode r malloc h (open_stream f0) 0 = rcv_decode (rcv_prefix r h xw b x t 0) malloc h ?s1 (TXN_HDR_SIZE + 0)"
    using rcv_decode_after_hdr [OF hd] r1 by simp
  show ?thesis
  proof (cases "unat xw + REC_TAIL_SIZE \<le> length ?u")
    case True
    then show ?thesis using first c by simp
  next
    case False
    have l: "length ?u < length (drop 0 (x @ t))" using False lx lt by simp
    have "concat fs = drop (length ?u) (drop 0 (x @ t)) @ z"
      by (rule append_split_prefix(2) [OF e0 l])
    then have "concat fs = drop (length ?u) (x @ t) @ z" by simp
    moreover have "length ?u < unat xw + REC_TAIL_SIZE" using False by simp
    ultimately show ?thesis
      using first c False rcv_run_from [OF _ _ lx lb lt T bnd ok, of fs "length ?u" z malloc] by simp
  qed
qed

theorem rcv_run_recovers_witness:
  "let h = \<lparr>magic = QLS_TXC_MAGIC, version = QLS_JRNL_VERSION, uflag = 0, rid = 3\<rparr>;
       w = word_bytes 8 (4 :: u64) @ [1, 2, 3, 4] @ rec_tail_copy h 0
   in rcv_run txn_rec_default (\<lambda>n. Some (replicate n 0)) h 0
        [take 10 w, take 10 (drop 10 w), drop (10 + 10) w @ replicate 100 0] =
      Inr (True, txn_rec_default\<lparr>txn_hdr := \<lparr>rhdr = h, xidsize = 4\<rparr>, buff := Some [1, 2, 3, 4],
                   txn_tail := rec_tail_copy h 0\<rparr>, 44)"
proof -
  let ?h = "\<lparr>magic = QLS_TXC_MAGIC, version = QLS_JRNL_VERSION, uflag = 0, rid = 3\<rparr> :: rec_hdr_t"
  let ?t = "rec_tail_copy ?h 0"
  let ?w = "word_bytes 8 (4 :: u64) @ [1, 2, 3, 4] @ ?t"
  have a: "concat [take 10 ?w, take 10 (drop 10 ?w), drop (10 + 10) ?w @ replicate 100 0] =
           word_bytes 8 (4 :: u64) @ [1, 2, 3, 4] @ ?t @ replicate 100 0"
    by (simp only: concat_three_cuts append.assoc)
  have b: "8 \<le> length (take 10 ?w)" "length [1, 2, 3, 4 :: byte] = unat (4 :: u64)" "length ?t = REC_TAIL_SIZE"
    "Some (replicate (unat (4 :: u64)) (0::byte)) = Some (replicate 4 0)"
    "length (replicate 4 (0::byte)) = unat (4 :: u64)" "length (txn_tail txn_rec_default) = REC_TAIL_SIZE"
    "TXN_HDR_SIZE + unat (4 :: u64) + REC_TAIL_SIZE < 2 ^ 32"
    "chk_tail \<lparr>rhdr = ?h, xidsize = 4\<rparr> ?t = Inr ()"
    by (simp_all add: rec_tail_copy_def txn_rec_default_def TXN_HDR_SIZE_def REC_TAIL_SIZE_def
        chk_tail_def jrec_chk_tail_def)
  have c: "TXN_HDR_SIZE + unat (4 :: u64) + REC_TAIL_SIZE = 44" by (simp add: TXN_HDR_SIZE_def REC_TAIL_SIZE_def)
  show ?thesis
    using rcv_run_recovers [where malloc = "\<lambda>n. Some (replicate n 0)" and h = ?h and r = txn_rec_default, OF a b]
    unfolding Let_def c .
qed

end
