(* ===== verification/Diagnostics.thy ===== *)
theory Diagnostics
  imports TxnRec
begin

text \<open>
  \<open>txn_rec::str\<close> (lines 378--392), \<open>clean()\<close> (lines 434--438) and the destructor
  (lines 59--62). \<open>str\<close> appends to the caller's string a summary written with
  \<open>std::ostringstream\<close> in its default (decimal) format: the kind, from the magic; the
  magic, the version (cast to \<open>int\<close>) and the record id as unsigned decimals; and
  \<open>_xidp\<close> printed as a \<open>const void*\<close>, whose text is implementation-defined and
  is therefore a parameter \<open>ptr_text\<close> of the model. \<open>clean()\<close> is empty. The
  reader \<open>parse_str\<close> is no part of the code: it states what the summary determines.
\<close>

text \<open>\<open>operator<<\<close> on an unsigned value: its decimal digits, most significant first.\<close>

definition digit_char :: "nat \<Rightarrow> char" where
  "digit_char d = char_of (48 + d)"

function dec_string :: "nat \<Rightarrow> string" where
  "dec_string n = (if n < 10 then [digit_char n] else dec_string (n div 10) @ [digit_char (n mod 10)])"
  by pat_completeness auto
termination by (relation "measure id") auto

declare dec_string.simps [simp del]

text \<open>Lines 378--392.\<close>

definition quote_char :: char where
  "quote_char = CHR 0x22"

definition str :: "txn_rec \<Rightarrow> (byte list option \<Rightarrow> string) \<Rightarrow> string \<Rightarrow> string" where
  "str r ptr_text s =
     s @ (if magic (rhdr (txn_hdr r)) = QLS_TXA_MAGIC then ''dtxa_rec: m='' else ''dtxc_rec: m='') @
     dec_string (unat (magic (rhdr (txn_hdr r)))) @
     '' v='' @ dec_string (unat (version (rhdr (txn_hdr r)))) @
     '' rid='' @ dec_string (unat (rid (rhdr (txn_hdr r)))) @
     '' xid='' @ [quote_char] @ ptr_text (xidp r) @ [quote_char]"

text \<open>\<open>clean()\<close>, lines 434--438 (``clean up allocated memory here''), and
  \<open>~txn_rec()\<close>, lines 59--62: no state changes; \<open>_buff\<close> is not freed.\<close>

definition clean :: "txn_rec \<Rightarrow> txn_rec" where
  "clean r = r"

definition txn_rec_destroy :: "txn_rec \<Rightarrow> txn_rec" where
  "txn_rec_destroy r = clean r"

text \<open>Reading the summary back: digits, literal separators, the three fields.\<close>

definition is_digit :: "char \<Rightarrow> bool" where
  "is_digit c \<longleftrightarrow> 48 \<le> (of_char c :: nat) \<and> (of_char c :: nat) < 58"

definition digit_val :: "char \<Rightarrow> nat" where
  "digit_val c = (of_char c :: nat) - 48"

definition dec_val :: "string \<Rightarrow> nat" where
  "dec_val ds = foldl (\<lambda>acc c. 10 * acc + digit_val c) 0 ds"

definition read_dec :: "string \<Rightarrow> (nat \<times> string) option" where
  "read_dec s = (let ds = takeWhile is_digit s
                 in if ds = [] then None else Some (dec_val ds, dropWhile is_digit s))"

fun expect :: "string \<Rightarrow> string \<Rightarrow> string option" where
  "expect [] s = Some s"
| "expect (c # p) [] = None"
| "expect (c # p) (d # s) = (if c = d then expect p s else None)"

definition parse_str :: "string \<Rightarrow> (bool \<times> nat \<times> nat \<times> nat) option" where
  "parse_str s =
     (let (abort, s) = (case expect ''dtxa_rec: m='' s of Some s \<Rightarrow> (True, Some s)
                        | None \<Rightarrow> (False, expect ''dtxc_rec: m='' s))
      in Option.bind s (\<lambda>s. Option.bind (read_dec s) (\<lambda>(m, s).
         Option.bind (expect '' v='' s) (\<lambda>s. Option.bind (read_dec s) (\<lambda>(v, s).
         Option.bind (expect '' rid='' s) (\<lambda>s. Option.bind (read_dec s) (\<lambda>(r, s).
         Option.bind (expect '' xid='' s) (\<lambda>_. Some (abort, m, v, r)))))))))"

subsection \<open>Facts: decimal numerals read back\<close>

lemma digit_char_digit: "d < 10 \<Longrightarrow> is_digit (digit_char d) \<and> digit_val (digit_char d) = d"
  by (simp add: digit_char_def is_digit_def digit_val_def)

lemma dec_string_digits: "\<forall>c \<in> set (dec_string n). is_digit c"
  by (induction n rule: dec_string.induct) (subst dec_string.simps, auto simp: digit_char_digit)

lemma dec_string_ne [simp]: "dec_string n \<noteq> []"
  by (subst dec_string.simps) simp

lemma dec_val_dec_string: "dec_val (dec_string n) = n"
proof (induction n rule: dec_string.induct)
  case (1 n)
  show ?case
  proof (cases "n < 10")
    case True
    then show ?thesis by (subst dec_string.simps) (simp add: dec_val_def digit_char_digit)
  next
    case False
    then have "dec_val (dec_string (n div 10)) = n div 10" using 1 by simp
    then show ?thesis
      using False by (subst dec_string.simps) (simp add: dec_val_def digit_char_digit)
  qed
qed

lemma read_dec_string:
  assumes "rest = [] \<or> \<not> is_digit (hd rest)"
  shows "read_dec (dec_string n @ rest) = Some (n, rest)"
proof -
  have d: "\<forall>c \<in> set (dec_string n). is_digit c"
    by (rule dec_string_digits)
  have "takeWhile is_digit rest = []" "dropWhile is_digit rest = rest"
    using assms by (cases rest; simp)+
  then have "takeWhile is_digit (dec_string n @ rest) = dec_string n"
    "dropWhile is_digit (dec_string n @ rest) = rest"
    using d by (simp_all add: takeWhile_append2 dropWhile_append2)
  then show ?thesis
    by (simp add: read_dec_def dec_val_dec_string)
qed

subsection \<open>The summary determines the header fields\<close>

text \<open>
  C18. Round trip of the diagnostic summary: the string \<open>str\<close> appends to an empty
  string reads back, whatever the pointer's text, as the kind (abort exactly when the
  magic is the abort magic), the magic, the version and the record id of the header.
\<close>

theorem str_roundtrip:
  "parse_str (str r ptr_text []) =
     Some (magic (rhdr (txn_hdr r)) = QLS_TXA_MAGIC, unat (magic (rhdr (txn_hdr r))),
           unat (version (rhdr (txn_hdr r))), unat (rid (rhdr (txn_hdr r))))"
proof -
  have sp: "\<not> is_digit CHR '' ''" by (simp add: is_digit_def)
  show ?thesis
    by (simp add: str_def parse_str_def read_dec_string sp Let_def)
qed

end
