(* ===== verification/Bounds.thy ===== *)
theory Bounds
  imports Decode
begin

text \<open>
  Bounds of the page decoder's size arithmetic. \<open>jrec::size_dblks\<close> returns a
  \<open>uint32_t\<close>, so the dblk count of a record of \<open>2^39\<close> bytes or more is taken
  modulo \<open>2^32\<close>; \<open>decode\<close> compares that count with the page's dblks (line 276) and
  may take the branch for a record that fits the page when it does not.
\<close>

subsection \<open>Facts: the dblk count is taken modulo \<open>2^32\<close>\<close>

lemma size_dblks_mod: "size_dblks sz = dblks_up sz mod 2 ^ 32"
  by (simp add: size_dblks_def dblks_up_def trunc_def)

subsection \<open>A wrapped dblk count reads past the page\<close>

text \<open>
  C19. Dblk-count wrap: a first \<open>decode\<close> call on a page whose header passes
  \<open>chk_hdr\<close> and whose \<open>xidsize\<close> makes the record's dblk count, taken modulo
  \<open>2^32\<close>, no larger than the page's dblks, although the page is shorter than header
  and payload, takes the single-page branch and its first \<open>memcpy\<close> reads past the
  end of the page.
\<close>

theorem decode_dblks_wrap_overread:
  assumes pg: "page = txn_hdr_bytes \<lparr>rhdr = h, xidsize = xw\<rparr> @ rest"
    and hd: "chk_hdr \<lparr>rhdr = h, xidsize = xw\<rparr> = Inr u"
    and al: "malloc (unat xw) = Some b" and lb: "length b = unat xw"
    and wrap: "dblks_up (TXN_HDR_SIZE + unat xw + REC_TAIL_SIZE) mod 2 ^ 32 \<le> m" and m: "0 < m"
    and short: "length page < TXN_HDR_SIZE + unat xw"
    and r64: "TXN_HDR_SIZE + unat xw + REC_TAIL_SIZE < 2 ^ 64"
  shows "decode r malloc h (Some page) 0 m = Inl Read_out_of_bounds"
proof -
  have xw: "bytes_word (take 8 (drop REC_HDR_SIZE page)) = xw"
    using txn_hdr_bytes_xidsize [of "\<lparr>rhdr = h, xidsize = xw\<rparr>" rest] pg by simp
  have rd: "mem_read page REC_HDR_SIZE 8 = Inr (take 8 (drop REC_HDR_SIZE page))"
    using pg by (simp add: mem_read_def TXN_HDR_SIZE_def REC_HDR_SIZE_def)
  have t64: "trunc 64 (TXN_HDR_SIZE + unat xw + REC_TAIL_SIZE) = TXN_HDR_SIZE + unat xw + REC_TAIL_SIZE"
    using r64 by (rule trunc_id)
  show ?thesis
    using rd xw hd al lb wrap m short t64
    by (simp add: decode_def decode_first_def xid_size_def size_dblks_mod copy_buff_def memcpy_def
        mem_read_def Let_def)
qed

theorem decode_dblks_wrap_overread_witness:
  "decode txn_rec_default (\<lambda>n. Some (replicate n 0)) \<lparr>magic = QLS_TXA_MAGIC, version = QLS_JRNL_VERSION, uflag = 0, rid = 1\<rparr>
     (Some (txn_hdr_bytes \<lparr>rhdr = \<lparr>magic = QLS_TXA_MAGIC, version = QLS_JRNL_VERSION, uflag = 0, rid = 1\<rparr>,
                           xidsize = 2 ^ 39\<rparr> @ replicate 104 0)) 0 1 = Inl Read_out_of_bounds"
proof -
  let ?h = "\<lparr>magic = QLS_TXA_MAGIC, version = QLS_JRNL_VERSION, uflag = 0, rid = 1\<rparr> :: rec_hdr_t"
  have u: "unat (2 ^ 39 :: u64) = 2 ^ 39"
    by simp
  have a: "chk_hdr \<lparr>rhdr = ?h, xidsize = 2 ^ 39\<rparr> = Inr ()"
    "(\<lambda>n. Some (replicate n (0::byte))) (unat (2 ^ 39 :: u64)) = Some (replicate (2 ^ 39) 0)"
    "length (replicate (2 ^ 39) (0::byte)) = unat (2 ^ 39 :: u64)"
    "dblks_up (TXN_HDR_SIZE + unat (2 ^ 39 :: u64) + REC_TAIL_SIZE) mod 2 ^ 32 \<le> 1" "(0::nat) < 1"
    "length (txn_hdr_bytes \<lparr>rhdr = ?h, xidsize = 2 ^ 39\<rparr> @ replicate 104 (0::byte)) < TXN_HDR_SIZE + unat (2 ^ 39 :: u64)"
    "TXN_HDR_SIZE + unat (2 ^ 39 :: u64) + REC_TAIL_SIZE < 2 ^ 64"
    using u by (simp_all add: chk_hdr_def jrec_chk_hdr_def QLS_TXA_MAGIC_def QLS_TXC_MAGIC_def
        dblks_up_def TXN_HDR_SIZE_def REC_TAIL_SIZE_def JRNL_DBLK_SIZE_def)
  show ?thesis
    by (rule decode_dblks_wrap_overread [where malloc = "\<lambda>n. Some (replicate n 0)" and h = ?h
          and xw = "2 ^ 39" and rest = "replicate 104 0", OF refl a])
qed

end
