(* ===== verification/Spec2Isabelle.thy ===== *)
theory Spec2Isabelle
  imports Integrity RecoverRun Diagnostics Bounds
begin

text \<open>
  \<^bold>\<open>The transaction-record codec of the Qpid linear store journal.\<close>

  The program is \<open>src/qpid/cpp/src/qpid/linearstore/jrnl/txn_rec.cpp\<close>: the class
  \<open>txn_rec\<close>, which writes a dtx commit/abort record (a \<open>txn_hdr_t\<close> header, an
  xid payload of \<open>_xidsize\<close> bytes and a \<open>rec_tail_t\<close> tail) into journal pages of
  whole dblks (\<open>JRNL_DBLK_SIZE\<close> = 128 bytes), reads it back page by page, and reads it
  back from a file stream during recovery. A record may span pages, so every call
  takes the record offset already handled (in dblks for pages, in bytes for the
  stream) and returns how much it handled. The journal driver that hands out pages
  and the file-position manager are outside \<open>src/\<close>; the header
  \<open>src/cpp/src/qpid/ha/Backup.h\<close> holds only declarations.

  \<^bold>\<open>Theories and what they model.\<close>
  \<^item> \<open>Prelude\<close>: the error type \<open>jerr\<close> (the \<open>jerrno\<close> codes the code throws, plus
    \<open>Assert_failed\<close>, \<open>Null_pointer\<close> and out-of-bounds faults for the C \<open>assert\<close>s and
    raw memory accesses), results \<open>jerr + 'a\<close> sequenced by \<open>bindE\<close>, the unsigned
    arithmetic of \<open>uint32_t\<close>/\<open>size_t\<close> (\<open>trunc\<close>, \<open>usub\<close>: wrap-around written out),
    little-endian byte encodings of words, and memory as byte lists with a
    bounds-checked \<open>memcpy\<close> (\<open>splice\<close> writes a block into a buffer).
  \<^item> \<open>Jrec\<close>: the constants, \<open>rec_hdr_t\<close>/\<open>txn_hdr_t\<close> as records, the tail as its
    16 raw bytes, their byte layout, \<open>size_dblks\<close>, the generic \<open>jrec::chk_*\<close> checks
    (declared outside \<open>src/\<close>, modelled from the specification) and
    \<open>txn_rec::chk_hdr\<close>, \<open>chk_hdr(rid)\<close>, \<open>chk_tail\<close> (lines 405--432).
  \<^item> \<open>TxnRec\<close>: the object's four data members as the record \<open>txn_rec\<close>
    (\<open>_xidp\<close>, \<open>_buff\<close> as \<open>byte list option\<close>, \<open>None\<close> for null), both constructors,
    both \<open>reset\<close>s and the accessors \<open>xid_size\<close>, \<open>rec_size\<close>, \<open>rec_size_dblks\<close>,
    \<open>get_xid\<close> (lines 38--88, 366--403), and \<open>tail_consistent\<close>, the invariant that the
    tail object matches the header.
  \<^item> \<open>Encode\<close>: \<open>txn_rec::encode\<close> (lines 90--196), one definition per branch
    (\<open>encode_first\<close>, \<open>encode_split\<close>, \<open>encode_last\<close>), the page as a byte list
    returned with the dblk count; and \<open>encode_run\<close>, the driver loop.
  \<^item> \<open>Decode\<close>: \<open>txn_rec::decode\<close> (lines 198--307), \<open>decode_first\<close> for the
    record start and \<open>decode_cont\<close> for continuations; the allocator is a parameter
    \<open>malloc :: nat \<Rightarrow> byte list option\<close> (\<open>None\<close> is a failed \<open>malloc\<close>).
  \<^item> \<open>Recover\<close>: \<open>txn_rec::rcv_decode\<close> (lines 309--364) over an explicit
    \<open>std::ifstream\<close> state (bytes left, \<open>eofbit\<close>/\<open>failbit\<close>/\<open>badbit\<close>,
    \<open>gcount()\<close>) with the standard library's \<open>read\<close>, \<open>ignore\<close> and \<open>clear\<close>.
  \<^item> \<open>RoundTrip\<close>: \<open>decode_run\<close>, the driver loop of the read path, and the
    composition of encoder and decoder.
  \<^item> \<open>Resume\<close>: a \<open>rcv_decode\<close> call cut short by the end of a file and resumed on
    the next file, the way the recovery driver continues a record across files.
  \<^item> \<open>Diagnostics\<close>: \<open>txn_rec::str\<close> (lines 378--392) with decimal printing of
    the header fields and the pointer's text as a parameter, \<open>clean()\<close> and the
    destructor (no state change), and a reader for the summary.
  \<^item> \<open>Bounds\<close>: the \<open>uint32_t\<close> dblk counts of \<open>decode\<close> at the edge of their range.
  \<^item> \<open>RecoverRun\<close>: the recovery driver \<open>rcv_run\<close> (modelled from the
    specification), which calls \<open>rcv_decode\<close> on one journal file after the other.
  \<^item> \<open>Integrity\<close>: the tail check as corruption detection on both read paths;
    \<open>flip_bit\<close> is the corruption (one bit of one tail byte flipped), not code.

  \<^bold>\<open>What the lemmas show.\<close>
  \<^item> Encoding is slicing (C1): each \<open>encode\<close> call writes the slice of the
    serialization header @ xid @ tail (\<open>enc_image\<close>) that starts at its offset and fits
    its page; a driven run (C5) writes the whole serialization, counts adding up to
    \<open>ceil(rec_size / 128)\<close>.
  \<^item> Decoding is slicing (C2, C3): each \<open>decode\<close> call copies the page bytes of the
    record into the payload buffer and tail at their record offsets (\<open>with_image\<close>,
    \<open>dec_image\<close>), checking the tail when the record ends in the page.
  \<^item> Errors: a bad header magic is rejected before any allocation (C4); allocation
    failure is \<open>JERR__MALLOC\<close> (C6).
  \<^item> Recovery: a whole record is read back (C7); a stream ending before the record's
    last byte gives \<open>false\<close>, not an error (C8); a stream ending in the padding still
    gives \<open>true\<close> (C9, a divergence from the specification).
  \<^item> Round trip (C10): decoding with the same call boundaries what was encoded gives
    back the header, the xid and the tail.
  \<^item> Reuse (C11--C13): \<open>reset\<close> of an object with the journal version, no user flags
    and a zero tail checksum is the constructor with the same fields (C11); the
    constructor and both \<open>reset\<close>s establish the tail invariant (C12); the bytes a reset
    object encodes are a fresh object's exactly when those three old fields were clean
    (C13): \<open>reset\<close> keeps \<open>_version\<close>, \<open>_uflag\<close> and the tail \<open>_checksum\<close>.
  \<^item> Corruption detection (C14, C15): a single flipped bit in the tail's complemented
    magic or record id makes \<open>decode\<close> and \<open>rcv_decode\<close> throw
    \<open>JERR_JREC_BADRECTAIL\<close>.
  \<^item> Resumption (C16, C17): a call cut after the \<open>xidsize\<close> field and resumed on the
    next file returns what one call on the joined stream returns; cut inside the field,
    the resumed call misreads the record and throws \<open>JERR_JREC_BADRECTAIL\<close>.
  \<^item> Diagnostics (C18): the summary reads back as the kind, magic, version and
    record id.
  \<^item> Bounds (C19): a record of \<open>2^39\<close> bytes or more whose dblk count wraps to at most
    the page's dblks makes \<open>decode\<close> read past the page.
  \<^item> Liveness of recovery (C20): over any split of the journal files whose first file
    holds the \<open>xidsize\<close> field, the driver's \<open>rcv_decode\<close> calls end with \<open>true\<close> and
    the record.

  \<^bold>\<open>Bounds.\<close> Offsets in the code are \<open>uint32_t\<close> products \<open>rec_offs_dblks *
  JRNL_DBLK_SIZE\<close>; the theorems assume \<open>rec_size() < 2^32\<close> (and, for recovery, that
  its dblk-rounded size is below \<open>2^32\<close>), the range in which no product wraps; C19
  shows what happens beyond it. The byte counts \<open>rd_cnt\<close> and \<open>wr_cnt\<close> are
  \<open>size_t\<close> sums kept exact in the model: they pass \<open>2^64\<close> only for buffers of
  \<open>2^64\<close> bytes, which memory cannot hold. The drivers \<open>encode_run\<close> and
  \<open>decode_run\<close> are structural recursions over the list of pages, and \<open>rcv_run\<close> over
  the list of files, so they need no fuel; \<open>rcv_decode\<close> has no loop.

  \<^bold>\<open>Not modelled.\<close> The text \<open>operator<<\<close> gives a \<open>const void*\<close>
  (implementation-defined; a parameter of \<open>str\<close>). Freeing memory: the model has no
  heap, so the leak of \<open>_buff\<close> on \<open>reset\<close> and destruction is recorded as a finding,
  not a theorem. The filler \<open>memset\<close>s under \<open>RHM_CLEAN\<close> and the big-endian or
  32-bit filler branches are compiled out in the default build. \<open>qpid::ha::Backup\<close>
  has no behaviour in \<open>src/\<close>.
\<close>

end
